theory Spec2Isabelle
  imports Complex_Main "HOL-Library.Multiset"
begin

section \<open>Strings\<close>

text \<open>
  A JavaScript string is modelled as a \<^typ>\<open>string\<close> whose characters are the
  code units \<open>0..255\<close> (the Latin-1 range). Numbers are modelled as exact
  rationals (\<^typ>\<open>rat\<close>); where the source tests \<open>Number.isFinite\<close>, a number
  is a \<^typ>\<open>rat option\<close> and \<open>None\<close> stands for \<open>NaN\<close>, an infinity or a missing
  array element. A \<open>Record<string, T>\<close> is a map on its own keys.
\<close>

text \<open>White space as \<open>String.prototype.trim\<close> and the regular expression class
  \<open>\s\<close> see it: TAB, LF, VT, FF, CR, SPACE and NBSP.\<close>

definition is_space :: "char \<Rightarrow> bool" where
  "is_space c = (c \<in> set [CHR 0x09, CHR 0x0A, CHR 0x0B, CHR 0x0C, CHR 0x0D, CHR 0x20, CHR 0xA0])"

definition toLowerCase_char :: "char \<Rightarrow> char" where
  "toLowerCase_char c =
     (let n = (of_char c :: nat)
      in if (65 \<le> n \<and> n \<le> 90) \<or> (192 \<le> n \<and> n \<le> 222 \<and> n \<noteq> 215)
         then char_of (n + 32) else c)"

definition toLowerCase :: "string \<Rightarrow> string" where
  "toLowerCase s = map toLowerCase_char s"

text \<open>\<open>toUpperCase\<close>: the three Latin-1 letters whose upper case leaves the range
  (\<open>0xB5\<close>, \<open>0xDF\<close>, \<open>0xFF\<close>) are left as they are.\<close>

definition toUpperCase_char :: "char \<Rightarrow> char" where
  "toUpperCase_char c =
     (let n = (of_char c :: nat)
      in if (97 \<le> n \<and> n \<le> 122) \<or> (224 \<le> n \<and> n \<le> 254 \<and> n \<noteq> 247)
         then char_of (n - 32) else c)"

definition toUpperCase :: "string \<Rightarrow> string" where
  "toUpperCase s = map toUpperCase_char s"

definition trim :: "string \<Rightarrow> string" where
  "trim s = rev (dropWhile is_space (rev (dropWhile is_space s)))"

text \<open>The character class \<open>[a-z0-9]\<close>.\<close>

definition is_lower_alnum :: "char \<Rightarrow> bool" where
  "is_lower_alnum c =
     (let n = (of_char c :: nat) in (97 \<le> n \<and> n \<le> 122) \<or> (48 \<le> n \<and> n \<le> 57))"

text \<open>\<open>.replace(/[^a-z0-9\s]/g, ' ')\<close>\<close>

definition replace_non_alnum :: "string \<Rightarrow> string" where
  "replace_non_alnum s = map (\<lambda>c. if is_lower_alnum c \<or> is_space c then c else CHR '' '') s"

text \<open>\<open>.replace(/\s+/g, ' ')\<close>: every maximal run of white space becomes one space.\<close>

function collapse_ws :: "string \<Rightarrow> string" where
  "collapse_ws [] = []"
| "collapse_ws (c # cs) =
     (if is_space c then CHR '' '' # collapse_ws (dropWhile is_space cs)
      else c # collapse_ws cs)"
  by pat_completeness auto
termination
  by (relation "measure length") (auto simp: length_dropWhile_le less_Suc_eq_le)

text \<open>\<open>s.split(d)\<close> for a one-character separator: never empty, \<open>''''.split(d) = ['''']\<close>.\<close>

fun split_on :: "char \<Rightarrow> string \<Rightarrow> string list" where
  "split_on d [] = [[]]"
| "split_on d (c # cs) =
     (if c = d then [] # split_on d cs
      else (case split_on d cs of [] \<Rightarrow> [[c]] | w # ws \<Rightarrow> (c # w) # ws))"

text \<open>\<open>words.join(d)\<close>\<close>

fun join_with :: "char \<Rightarrow> string list \<Rightarrow> string" where
  "join_with d [] = []"
| "join_with d [w] = w"
| "join_with d (w # ws) = w @ d # join_with d ws"

text \<open>Decimal rendering of a non-negative integer, and \<open>.padStart(2, '0')\<close>.\<close>

fun show_nat :: "nat \<Rightarrow> string" where
  "show_nat n =
     (if n < 10 then [char_of (48 + n)]
      else show_nat (n div 10) @ [char_of (48 + n mod 10)])"

declare show_nat.simps [simp del]

definition padStart2 :: "string \<Rightarrow> string" where
  "padStart2 s = replicate (2 - length s) (CHR ''0'') @ s"

section \<open>NameMatcher: \<open>normalizeName\<close> and \<open>applyAlias\<close>\<close>

definition suffixes :: "string list" where
  "suffixes = [''jr'', ''sr'', ''ii'', ''iii'', ''iv'', ''v'']"

text \<open>\<open>normalizeName\<close> (utils/normalizeName.ts). \<open>None\<close> is a \<open>null\<close> or
  \<open>undefined\<close> argument; it and the empty string are the falsy inputs of the guard
  \<open>if (!name) return ''\<close>.\<close>

definition normalizeName :: "string option \<Rightarrow> string" where
  "normalizeName name =
     (case name of
        None \<Rightarrow> []
      | Some s \<Rightarrow>
          if s = [] then []
          else
            (let normalized = trim (collapse_ws (replace_non_alnum (trim (toLowerCase s))));
                 words = split_on (CHR '' '') normalized;
                 lastWord = last words
             in if lastWord \<in> set suffixes
                then trim (join_with (CHR '' '') (butlast words))
                else normalized))"

text \<open>The alias table \<open>nameAliases\<close> (data/aliases.ts), in source order.\<close>

definition nameAliases :: "(string \<times> string) list" where
  "nameAliases =
    [(''d k metcalf'', ''dk metcalf''),
     (''dak metcalf'', ''dk metcalf''),
     (''gabe davis'', ''gabriel davis''),
     (''ken walker'', ''kenneth walker''),
     (''kenny walker'', ''kenneth walker''),
     (''aj brown'', ''a j brown''),
     (''a j brown'', ''aj brown''),
     (''cj stroud'', ''c j stroud''),
     (''c j stroud'', ''cj stroud''),
     (''dk metcalf'', ''d k metcalf''),
     (''brian robinson'', ''brian robinson''),
     (''brob'', ''brian robinson''),
     (''bijan'', ''bijan robinson''),
     (''breece'', ''breece hall''),
     (''amon ra st brown'', ''amonra st brown''),
     (''amon ra stbrown'', ''amonra st brown''),
     (''devonta smith'', ''devonta smith''),
     (''de vonta smith'', ''devonta smith''),
     (''devon achane'', ''de von achane''),
     (''deandre hopkins'', ''de andre hopkins''),
     (''deandre swift'', ''de andre swift''),
     (''deebo samuel'', ''deebo samuel''),
     (''dj moore'', ''d j moore''),
     (''d j moore'', ''dj moore''),
     (''jk dobbins'', ''j k dobbins''),
     (''j k dobbins'', ''jk dobbins''),
     (''tj hockenson'', ''t j hockenson''),
     (''t j hockenson'', ''tj hockenson'')]"

text \<open>\<open>nameAliases[normalizedName] || normalizedName\<close>: a stored empty string is
  falsy and would give the input back.\<close>

definition applyAlias :: "string \<Rightarrow> string" where
  "applyAlias normalizedName =
     (case map_of nameAliases normalizedName of
        None \<Rightarrow> normalizedName
      | Some v \<Rightarrow> if v = [] then normalizedName else v)"

section \<open>Ranking rows and the reconciliation merge\<close>

text \<open>\<open>RankingRow\<close> (types.ts). The optional fields are options; \<open>tier\<close> is kept as
  the string the parser stores.\<close>

record RankingRow =
  name :: string
  tier :: string
  position :: string
  assetType :: "string option"
  taken :: bool
  manualOverride :: "bool option"
  normalizedName :: string

text \<open>The \<open>onPicksUpdate\<close> callback of App.tsx: the state update
  \<open>setRankings(prev => prev.map(...))\<close> as a function of the taken-name set and the
  previous list.\<close>

definition onPicksUpdate :: "string set \<Rightarrow> RankingRow list \<Rightarrow> RankingRow list" where
  "onPicksUpdate pickedNames prev =
     map (\<lambda>ranking.
            let shouldBeTaken = (normalizedName ranking \<in> pickedNames)
            in if manualOverride ranking = Some True then ranking
               else ranking\<lparr>taken := shouldBeTaken\<rparr>) prev"

text \<open>\<open>handleToggleTaken\<close> of App.tsx. Reading \<open>updated[index].taken\<close> past the end
  of the list throws a \<open>TypeError\<close>: \<open>None\<close>.\<close>

definition handleToggleTaken :: "nat \<Rightarrow> RankingRow list \<Rightarrow> RankingRow list option" where
  "handleToggleTaken index prev =
     (if index < length prev
      then Some (prev[index := (prev ! index)\<lparr>taken := \<not> taken (prev ! index),
                                               manualOverride := Some True\<rparr>])
      else None)"

section \<open>DraftReconciler: one poll cycle of \<open>SleeperService.fetchPicks\<close>\<close>

text \<open>\<open>SleeperDraftPicksResponse\<close> (services/sleeper.ts). \<open>pick_no\<close> is the feed's
  1-based pick number, a natural number here.\<close>

record PickMetadata =
  first_name :: "string option"
  last_name :: "string option"
  player_name :: "string option"
  md_position :: "string option"
  md_team :: "string option"

record SleeperDraftPicksResponse =
  pick_no :: nat
  player_id :: string
  picked_by :: string
  metadata :: "PickMetadata option"

text \<open>\<open>DraftPick\<close> (types.ts).\<close>

record DraftPick =
  pickNo :: nat
  pickDisplay :: string
  playerName :: string
  dp_position :: string
  dp_team :: string
  pickedBy :: string
  isMyPick :: bool

text \<open>A string used as a condition, or on the left of \<open>||\<close>: absent and empty are falsy.\<close>

definition truthy :: "string option \<Rightarrow> bool" where
  "truthy v = (case v of None \<Rightarrow> False | Some s \<Rightarrow> s \<noteq> [])"

definition or_empty :: "string option \<Rightarrow> string" where
  "or_empty v = (case v of None \<Rightarrow> [] | Some s \<Rightarrow> s)"

text \<open>The text of \<open>Math.ceil(k / leagueSize)\<close> and of \<open>((k - 1) % leagueSize) + 1\<close>
  inside a template string. A league size of \<open>0\<close> makes the quotient \<open>Infinity\<close> for
  \<open>k > 0\<close> and \<open>NaN\<close> for \<open>k = 0\<close>, and the remainder \<open>NaN\<close>. The remainder of
  JavaScript takes the sign of the dividend: \<open>(0 - 1) % n\<close> is \<open>-1\<close> for \<open>n > 1\<close> and
  \<open>-0\<close> for \<open>n = 1\<close>.\<close>

definition round_text :: "nat \<Rightarrow> nat \<Rightarrow> string" where
  "round_text k leagueSize =
     (if leagueSize = 0 then (if k = 0 then ''NaN'' else ''Infinity'')
      else show_nat (nat \<lceil>(of_nat k :: rat) / of_nat leagueSize\<rceil>))"

definition pickInRound_text :: "nat \<Rightarrow> nat \<Rightarrow> string" where
  "pickInRound_text k leagueSize =
     (if leagueSize = 0 then ''NaN''
      else if k = 0 then (if leagueSize = 1 then ''1'' else ''0'')
      else show_nat (((k - 1) mod leagueSize) + 1))"

text \<open>\<open>formatPickDisplay\<close>\<close>

definition formatPickDisplay :: "nat \<Rightarrow> nat \<Rightarrow> string" where
  "formatPickDisplay leagueSize pickNo' =
     round_text pickNo' leagueSize @ ''.'' @ padStart2 (pickInRound_text pickNo' leagueSize)"

text \<open>\<open>extractPlayerName\<close>\<close>

definition extractPlayerName :: "SleeperDraftPicksResponse \<Rightarrow> string option" where
  "extractPlayerName pick =
     (case metadata pick of
        None \<Rightarrow> None
      | Some m \<Rightarrow>
          if truthy (first_name m) \<and> truthy (last_name m)
          then Some (or_empty (first_name m) @ '' '' @ or_empty (last_name m))
          else if truthy (player_name m) then player_name m
          else None)"

text \<open>\<open>pick.metadata?.position?.toUpperCase() || ''\<close>\<close>

definition pick_position :: "SleeperDraftPicksResponse \<Rightarrow> string" where
  "pick_position pick =
     (case metadata pick of
        None \<Rightarrow> []
      | Some m \<Rightarrow> (case md_position m of None \<Rightarrow> [] | Some p \<Rightarrow> toUpperCase p))"

text \<open>The name synthesised for the kicker pick that brings the counter to \<open>kickerCount\<close>.\<close>

definition rookiePickName :: "nat \<Rightarrow> nat \<Rightarrow> string" where
  "rookiePickName leagueSize kickerCount' =
     ''2026 '' @ round_text kickerCount' leagueSize @ ''.'' @
       padStart2 (pickInRound_text kickerCount' leagueSize)"

text \<open>The locals of \<open>fetchPicks\<close> that the loop over the sorted picks updates.\<close>

record FetchState =
  pickedNames :: "string set"
  draftPicks :: "DraftPick list"
  kickerCount :: nat

definition fetch_init :: FetchState where
  "fetch_init = \<lparr>pickedNames = {}, draftPicks = [], kickerCount = 0\<rparr>"

text \<open>The body of \<open>for (const pick of picks)\<close>.\<close>

definition fetch_step ::
  "nat \<Rightarrow> bool \<Rightarrow> FetchState \<Rightarrow> SleeperDraftPicksResponse \<Rightarrow> FetchState" where
  "fetch_step leagueSize rookiePickMode st pick =
     (let position' = pick_position pick
      in if rookiePickMode \<and> position' = ''K'' then
           (let kc = kickerCount st + 1;
                rookiePickName' = rookiePickName leagueSize kc;
                normalized = normalizeName (Some rookiePickName')
            in \<lparr>pickedNames = insert normalized (pickedNames st),
                draftPicks = draftPicks st @
                  [\<lparr>pickNo = pick_no pick,
                    pickDisplay = formatPickDisplay leagueSize (pick_no pick),
                    playerName = rookiePickName',
                    dp_position = ''PICK'',
                    dp_team = [],
                    pickedBy = picked_by pick,
                    isMyPick = False\<rparr>],
                kickerCount = kc\<rparr>)
         else
           (case extractPlayerName pick of
              None \<Rightarrow> st
            | Some playerName' \<Rightarrow>
                if playerName' = [] then st
                else
                  (let normalized = normalizeName (Some playerName');
                       withAlias = applyAlias normalized
                   in st\<lparr>pickedNames := insert withAlias (pickedNames st),
                          draftPicks := draftPicks st @
                            [\<lparr>pickNo = pick_no pick,
                              pickDisplay = formatPickDisplay leagueSize (pick_no pick),
                              playerName = playerName',
                              dp_position = position',
                              dp_team = (case metadata pick of None \<Rightarrow> []
                                         | Some m \<Rightarrow> or_empty (md_team m)),
                              pickedBy = picked_by pick,
                              isMyPick = False\<rparr>]\<rparr>)))"

text \<open>The successful path of \<open>fetchPicks\<close> on the parsed snapshot \<open>picks\<close>: the stable
  sort by \<open>pick_no\<close>, then the loop. The result holds what the three callbacks receive
  (the taken-name set, the ordered pick list; \<open>onSync\<close> gets \<open>length picks\<close>).\<close>

definition fetchPicks ::
  "nat \<Rightarrow> bool \<Rightarrow> SleeperDraftPicksResponse list \<Rightarrow> FetchState" where
  "fetchPicks leagueSize rookiePickMode picks =
     foldl (fetch_step leagueSize rookiePickMode) fetch_init (sort_key pick_no picks)"

section \<open>Ranking file: \<open>parseCSV\<close>\<close>

text \<open>\<open>content.split(/\r?\n/)\<close>: a line ends at LF, or at CR directly followed by LF.\<close>

fun split_lines :: "string \<Rightarrow> string list" where
  "split_lines [] = [[]]"
| "split_lines (c # cs) =
     (if c = CHR 0x0A then [] # split_lines cs
      else
        (case cs of
           [] \<Rightarrow> [[c]]
         | d # ds \<Rightarrow>
             if c = CHR 0x0D \<and> d = CHR 0x0A then [] # split_lines ds
             else (case split_lines cs of [] \<Rightarrow> [[c]] | w # ws \<Rightarrow> (c # w) # ws)))"

text \<open>The character loop of \<open>parseCSVLine\<close>: \<open>values\<close> (in order), \<open>current\<close> and
  \<open>inQuotes\<close> are the accumulators; the final \<open>values.push(current)\<close> is the base case.\<close>

fun csv_fields :: "string \<Rightarrow> string list \<Rightarrow> string \<Rightarrow> bool \<Rightarrow> string list" where
  "csv_fields [] values current inQuotes = values @ [current]"
| "csv_fields (c # cs) values current inQuotes =
     (if c = CHR 0x22 then csv_fields cs values current (\<not> inQuotes)
      else if c = CHR '','' \<and> \<not> inQuotes then csv_fields cs (values @ [current]) [] inQuotes
      else csv_fields cs values (current @ [c]) inQuotes)"

text \<open>\<open>.replace(/^"|"$/g, '')\<close>\<close>

definition strip_quotes :: "string \<Rightarrow> string" where
  "strip_quotes v =
     (let v1 = (case v of [] \<Rightarrow> [] | c # cs \<Rightarrow> if c = CHR 0x22 then cs else v)
      in if v1 \<noteq> [] \<and> last v1 = CHR 0x22 then butlast v1 else v1)"

definition parseCSVLine :: "string \<Rightarrow> string list" where
  "parseCSVLine line = map (\<lambda>v. strip_quotes (trim v)) (csv_fields line [] [] False)"

text \<open>The header map: \<open>headers.forEach((header, index) => headerMap.set(...))\<close>; a later
  column with the same key overwrites an earlier one.\<close>

definition headerMap_of :: "string list \<Rightarrow> (string \<rightharpoonup> nat)" where
  "headerMap_of headers =
     fold (\<lambda>(header, index) m. m(trim (toLowerCase header) \<mapsto> index))
          (zip headers [0 ..< length headers]) Map.empty"

text \<open>\<open>findHeaderIndex\<close>: \<open>None\<close> is the result \<open>-1\<close>.\<close>

fun findHeaderIndex :: "(string \<rightharpoonup> nat) \<Rightarrow> string list \<Rightarrow> nat option" where
  "findHeaderIndex headerMap [] = None"
| "findHeaderIndex headerMap (name' # possibleNames) =
     (case headerMap (toLowerCase name') of
        Some idx \<Rightarrow> Some idx
      | None \<Rightarrow> findHeaderIndex headerMap possibleNames)"

datatype error = Error string

text \<open>The body of the loop over the data lines: the rows a line contributes (none or one).\<close>

definition parse_row :: "nat \<Rightarrow> nat \<Rightarrow> nat \<Rightarrow> nat option \<Rightarrow> string \<Rightarrow> RankingRow list" where
  "parse_row nameIdx tierIdx posIdx assetTypeIdx rawLine =
     (let line = trim rawLine
      in if line = [] then []
         else
           (let values = parseCSVLine line
            in if length values > nameIdx \<and> length values > tierIdx \<and> length values > posIdx
               then
                 (let name' = trim (values ! nameIdx);
                      tier' = trim (values ! tierIdx);
                      position' = trim (values ! posIdx);
                      assetType' =
                        (case assetTypeIdx of
                           None \<Rightarrow> None
                         | Some i \<Rightarrow> if i < length values then Some (trim (values ! i)) else None)
                  in if name' \<noteq> []
                     then [\<lparr>name = name', tier = tier', position = position',
                            assetType = assetType', taken = False, manualOverride = None,
                            normalizedName = applyAlias (normalizeName (Some name'))\<rparr>]
                     else [])
               else []))"

text \<open>\<open>parseCSV\<close> (utils/csvParser.ts). \<open>Inl\<close> is the thrown \<open>Error\<close>.\<close>

definition parseCSV :: "string \<Rightarrow> error + RankingRow list" where
  "parseCSV content =
     (let lines = filter (\<lambda>line. trim line \<noteq> []) (split_lines content)
      in case lines of
           [] \<Rightarrow> Inr []
         | headerLine # dataLines \<Rightarrow>
             (let headers = parseCSVLine headerLine;
                  headerMap = headerMap_of headers;
                  nameIdx = findHeaderIndex headerMap [''name''];
                  tierIdx = findHeaderIndex headerMap [''tier''];
                  posIdx = findHeaderIndex headerMap [''pos'', ''position''];
                  assetTypeIdx = findHeaderIndex headerMap [''assettype'', ''asset_type'']
              in case (nameIdx, tierIdx, posIdx) of
                   (Some ni, Some ti, Some pj) \<Rightarrow>
                     Inr (concat (map (parse_row ni ti pj assetTypeIdx) dataLines))
                 | _ \<Rightarrow> Inl (Error ''CSV must contain columns: name, tier, and pos/position'')))"

section \<open>PositionModel: slots and the Best-Ball optimizer\<close>

text \<open>\<open>PlayerProjection\<close>: the three fields \<open>pickBestBall\<close> reads.\<close>

record PlayerProjection =
  pp_player_id :: string
  pos :: string
  proj :: rat

text \<open>\<open>slots[slot] || 0\<close> on a \<open>Record<string, number>\<close> of slot counts.\<close>

definition slot_count :: "(string \<rightharpoonup> nat) \<Rightarrow> string \<Rightarrow> nat" where
  "slot_count slots slot = (case slots slot of None \<Rightarrow> 0 | Some n \<Rightarrow> n)"

text \<open>\<open>countSlots\<close>\<close>

definition countSlots :: "string list \<Rightarrow> (string \<rightharpoonup> nat)" where
  "countSlots rosterPositions =
     fold (\<lambda>s counts.
             if s = ''BN'' \<or> s = ''IR'' \<or> s = ''TAXI'' then counts
             else counts(s \<mapsto> slot_count counts s + 1))
          rosterPositions Map.empty"

definition FLEX_MAP :: "string \<rightharpoonup> string set" where
  "FLEX_MAP =
     [''WRRB'' \<mapsto> {''WR'', ''RB''},
      ''WRRBTE'' \<mapsto> {''WR'', ''RB'', ''TE''},
      ''FLEX'' \<mapsto> {''WR'', ''RB'', ''TE''},
      ''SUPER_FLEX'' \<mapsto> {''QB'', ''WR'', ''RB'', ''TE''}]"

text \<open>The two locals of \<open>pickBestBall\<close> that \<open>takeTop\<close> updates.\<close>

record BestBallState =
  used :: "string set"
  total :: rat

text \<open>\<open>.sort(byProjectionDesc)\<close>: the stable sort by descending \<open>proj\<close>
  (\<^const>\<open>sort_key\<close> is a stable insertion sort).\<close>

definition sort_byProjectionDesc :: "PlayerProjection list \<Rightarrow> PlayerProjection list" where
  "sort_byProjectionDesc ps = sort_key (\<lambda>p. - proj p) ps"

text \<open>The \<open>pool\<close> of \<open>takeTop\<close>: filter, sort, \<open>slice(0, n)\<close>.\<close>

definition takeTop_pool ::
  "PlayerProjection list \<Rightarrow> string set \<Rightarrow> string set \<Rightarrow> nat \<Rightarrow> PlayerProjection list" where
  "takeTop_pool points used' eligiblePositions n =
     take n (sort_byProjectionDesc
       (filter (\<lambda>p. pp_player_id p \<notin> used' \<and> pos p \<in> eligiblePositions) points))"

definition takeTop ::
  "PlayerProjection list \<Rightarrow> string set \<Rightarrow> nat \<Rightarrow> BestBallState \<Rightarrow> BestBallState" where
  "takeTop points eligiblePositions n st =
     fold (\<lambda>p st'. \<lparr>used = insert (pp_player_id p) (used st'), total = total st' + proj p\<rparr>)
          (takeTop_pool points (used st) eligiblePositions n) st"

definition fixedOrder :: "string list" where
  "fixedOrder = [''QB'', ''RB'', ''WR'', ''TE'', ''K'', ''DST'']"

definition flexOrder :: "string list" where
  "flexOrder = [''WRRB'', ''WRRBTE'', ''FLEX'', ''SUPER_FLEX'']"

text \<open>The bodies of the two slot loops. Every slot of \<open>flexOrder\<close> is a key of
  \<open>FLEX_MAP\<close>, so the \<open>None\<close> branch is never taken.\<close>

definition fixed_step ::
  "PlayerProjection list \<Rightarrow> (string \<rightharpoonup> nat) \<Rightarrow> string \<Rightarrow> BestBallState \<Rightarrow> BestBallState" where
  "fixed_step points slots slot st =
     (let n = slot_count slots slot in if n = 0 then st else takeTop points {slot} n st)"

definition flex_step ::
  "PlayerProjection list \<Rightarrow> (string \<rightharpoonup> nat) \<Rightarrow> string \<Rightarrow> BestBallState \<Rightarrow> BestBallState" where
  "flex_step points slots slot st =
     (let n = slot_count slots slot
      in if n = 0 then st
         else (case FLEX_MAP slot of None \<Rightarrow> st | Some e \<Rightarrow> takeTop points e n st))"

definition pickBestBall_state ::
  "PlayerProjection list \<Rightarrow> (string \<rightharpoonup> nat) \<Rightarrow> BestBallState" where
  "pickBestBall_state points slots =
     fold (flex_step points slots) flexOrder
       (fold (fixed_step points slots) fixedOrder \<lparr>used = {}, total = 0\<rparr>)"

definition pickBestBall :: "PlayerProjection list \<Rightarrow> (string \<rightharpoonup> nat) \<Rightarrow> rat" where
  "pickBestBall points slots = total (pickBestBall_state points slots)"

section \<open>Power Rankings: \<open>pickOptimalLineupByValue\<close>\<close>

record ValuePlayer =
  vp_player_id :: string
  vp_pos :: string
  vp_value :: rat
  vp_name :: string

record LineupState =
  lu_used :: "string set"
  totalValue :: rat
  positionalValues :: "string \<rightharpoonup> rat"

definition value_pool ::
  "ValuePlayer list \<Rightarrow> string set \<Rightarrow> string set \<Rightarrow> nat \<Rightarrow> ValuePlayer list" where
  "value_pool players used' eligiblePositions n =
     take n (sort_key (\<lambda>p. - vp_value p)
       (filter (\<lambda>p. vp_player_id p \<notin> used' \<and> vp_pos p \<in> eligiblePositions) players))"

text \<open>The inner \<open>takeTop\<close> of \<open>pickOptimalLineupByValue\<close>.\<close>

definition takeTopValue ::
  "ValuePlayer list \<Rightarrow> string set \<Rightarrow> nat \<Rightarrow> bool \<Rightarrow> LineupState \<Rightarrow> LineupState" where
  "takeTopValue players eligiblePositions n countTowardPositional st =
     fold (\<lambda>p st'.
             \<lparr>lu_used = insert (vp_player_id p) (lu_used st'),
              totalValue = totalValue st' + vp_value p,
              positionalValues =
                (case positionalValues st' (vp_pos p) of
                   Some v \<Rightarrow>
                     if countTowardPositional
                     then (positionalValues st')(vp_pos p \<mapsto> v + vp_value p)
                     else positionalValues st'
                 | None \<Rightarrow> positionalValues st')\<rparr>)
          (value_pool players (lu_used st) eligiblePositions n) st"

definition takeTopWithQBTracking ::
  "ValuePlayer list \<Rightarrow> string set \<Rightarrow> nat \<Rightarrow> LineupState \<Rightarrow> LineupState" where
  "takeTopWithQBTracking players eligiblePositions n st =
     fold (\<lambda>p st'.
             \<lparr>lu_used = insert (vp_player_id p) (lu_used st'),
              totalValue = totalValue st' + vp_value p,
              positionalValues =
                (if vp_pos p = ''QB''
                 then (positionalValues st')
                        (''QB'' \<mapsto> (case positionalValues st' ''QB'' of
                                        None \<Rightarrow> 0 | Some v \<Rightarrow> v) + vp_value p)
                 else positionalValues st')\<rparr>)
          (value_pool players (lu_used st) eligiblePositions n) st"

text \<open>\<open>if (slots[s]) f(...)\<close>\<close>

definition when_slot ::
  "(string \<rightharpoonup> nat) \<Rightarrow> string \<Rightarrow> (nat \<Rightarrow> LineupState \<Rightarrow> LineupState) \<Rightarrow> LineupState \<Rightarrow> LineupState"
  where
  "when_slot slots s f st = (let n = slot_count slots s in if n = 0 then st else f n st)"

definition lineup_init :: LineupState where
  "lineup_init =
     \<lparr>lu_used = {}, totalValue = 0,
      positionalValues = [''QB'' \<mapsto> 0, ''RB'' \<mapsto> 0, ''WR'' \<mapsto> 0, ''TE'' \<mapsto> 0]\<rparr>"

text \<open>The statements of \<open>pickOptimalLineupByValue\<close>, in source order; \<open>FLEX_MAP[s]\<close> is
  written out for the four keys it is read at.\<close>

definition pickOptimalLineupByValue ::
  "ValuePlayer list \<Rightarrow> (string \<rightharpoonup> nat) \<Rightarrow> LineupState" where
  "pickOptimalLineupByValue players slots =
     (let st1 = when_slot slots ''QB'' (\<lambda>n. takeTopValue players {''QB''} n True) lineup_init;
          st2 = when_slot slots ''RB'' (\<lambda>n. takeTopValue players {''RB''} n True) st1;
          st3 = when_slot slots ''WR'' (\<lambda>n. takeTopValue players {''WR''} n True) st2;
          st4 = when_slot slots ''TE'' (\<lambda>n. takeTopValue players {''TE''} n True) st3;
          st5 = when_slot slots ''FLEX''
                  (\<lambda>n. takeTopValue players {''WR'', ''RB'', ''TE''} n False) st4;
          st6 = when_slot slots ''WRRB''
                  (\<lambda>n. takeTopValue players {''WR'', ''RB''} n False) st5;
          st7 = when_slot slots ''WRRBTE''
                  (\<lambda>n. takeTopValue players {''WR'', ''RB'', ''TE''} n False) st6
      in when_slot slots ''SUPER_FLEX''
           (\<lambda>n. takeTopWithQBTracking players {''QB'', ''WR'', ''RB'', ''TE''} n) st7)"

text \<open>A value candidate read as a Best-Ball candidate: value in place of projected points.\<close>

definition as_projection :: "ValuePlayer \<Rightarrow> PlayerProjection" where
  "as_projection p = \<lparr>pp_player_id = vp_player_id p, pos = vp_pos p, proj = vp_value p\<rparr>"

section \<open>InjuryModel\<close>

text \<open>\<open>probabilities[injuryStatus || ''] ?? 1.0\<close>: \<open>None\<close> is \<open>null\<close>; the empty key and
  every unknown designation are absent from the table.\<close>

definition getInjuryProbability :: "string option \<Rightarrow> rat" where
  "getInjuryProbability injuryStatus =
     (case map_of [(''IR'', 0), (''Out'', 0), (''Doubtful'', 15 / 100),
                   (''Questionable'', 65 / 100), (''Probable'', 9 / 10)]
             (or_empty injuryStatus) of
        None \<Rightarrow> 1
      | Some v \<Rightarrow> v)"

definition getInjuryImpact :: "string option \<Rightarrow> rat" where
  "getInjuryImpact injuryStatus =
     (case map_of [(''Doubtful'', 6 / 10), (''Questionable'', 85 / 100),
                   (''Probable'', 95 / 100)]
             (or_empty injuryStatus) of
        None \<Rightarrow> 1
      | Some v \<Rightarrow> v)"

definition applyInjuryAdjustment :: "rat \<Rightarrow> string option \<Rightarrow> rat" where
  "applyInjuryAdjustment projection injuryStatus =
     projection * getInjuryProbability injuryStatus * getInjuryImpact injuryStatus"

section \<open>ProjectionEngine: the Best-Ball future-week projection of one player\<close>

text \<open>\<open>positionAverages[position] || 10\<close>\<close>

definition getPositionAverage :: "string \<Rightarrow> rat" where
  "getPositionAverage position' =
     (case map_of [(''QB'', 18), (''RB'', 12), (''WR'', 11), (''TE'', 9), (''K'', 8), (''DST'', 8)]
             position' of
        None \<Rightarrow> 10
      | Some v \<Rightarrow> if v = 0 then 10 else v)"

definition getSampleSizeConfidence :: "nat \<Rightarrow> rat" where
  "getSampleSizeConfidence sampleSize =
     (if sampleSize \<ge> 8 then 1
      else if sampleSize \<ge> 5 then 9 / 10
      else if sampleSize \<ge> 3 then 75 / 100
      else if sampleSize \<ge> 1 then 5 / 10
      else 25 / 100)"

text \<open>What the loop body of \<open>getBestBallProjections\<close> (lines 201--240) reads for one
  active, non-bye player of a future week: the meta data's injury status and position,
  the week's entry of the external projection map (\<open>None\<close> when the player has none),
  and the player's history (\<open>playerAverages[pid] || 0\<close>, \<open>playerTrends[pid] || 0\<close>, the
  number of non-zero past performances, and \<open>weeksOut\<close>).\<close>

record FuturePlayer =
  injury_status :: "string option"
  fp_pos :: string
  projection_entry :: "rat option"
  historicalAvg :: rat
  trend :: rat
  nonZeroCount :: nat
  weeksOut :: nat

text \<open>\<open>sleeperProjectionsByWeek[week]?.[pid] || null\<close>: an entry of \<open>0\<close> is falsy.\<close>

definition sleeperProj_of :: "FuturePlayer \<Rightarrow> rat option" where
  "sleeperProj_of p =
     (case projection_entry p of None \<Rightarrow> None | Some v \<Rightarrow> if v = 0 then None else Some v)"

text \<open>Lines 214--233: the blend of history, external projection and trend, then the
  regression to the position mean.\<close>

definition blendedProjection :: "FuturePlayer \<Rightarrow> rat" where
  "blendedProjection p =
     (let sleeperProj = sleeperProj_of p;
          sampleConfidence = getSampleSizeConfidence (nonZeroCount p);
          projectedPoints =
            (case sleeperProj of
               Some sp \<Rightarrow>
                 if historicalAvg p > 0 then
                   (let historicalWeight = (35 / 100) * sampleConfidence;
                        sleeperWeight = 6 / 10;
                        trendWeight = 5 / 100;
                        trendAdjustment = trend p * of_nat (weeksOut p)
                    in historicalWeight * historicalAvg p + sleeperWeight * sp
                       + trendWeight * trendAdjustment)
                 else sp
             | None \<Rightarrow>
                 if historicalAvg p > 0 then
                   (let trendAdjustment = trend p * of_nat (weeksOut p) * (2 / 10)
                    in historicalAvg p + trendAdjustment)
                 else 0);
          positionMean = getPositionAverage (fp_pos p)
      in projectedPoints + (12 / 100) * (positionMean - projectedPoints))"

text \<open>Whether line 235 skips the injury multiplication.\<close>

definition skipsInjuryAdjustment :: "FuturePlayer \<Rightarrow> bool" where
  "skipsInjuryAdjustment p =
     (case sleeperProj_of p of
        None \<Rightarrow> False
      | Some sp \<Rightarrow> sp > 0 \<and> getInjuryProbability (injury_status p) = 0)"

text \<open>Lines 201--240: the points pushed for the player; \<open>None\<close> is the \<open>continue\<close> of
  line 205.\<close>

definition futureWeekPoints :: "FuturePlayer \<Rightarrow> rat option" where
  "futureWeekPoints p =
     (let sleeperProj = sleeperProj_of p;
          injuryProb = getInjuryProbability (injury_status p);
          injuryImpact = getInjuryImpact (injury_status p)
      in if injuryProb = 0 \<and> sleeperProj = None then None
         else
           (let projectedPoints = blendedProjection p;
                projectedPoints' =
                  (if \<not> skipsInjuryAdjustment p
                   then projectedPoints * injuryProb * injuryImpact
                   else projectedPoints)
            in Some (max 0 projectedPoints')))"

section \<open>ProjectionEngine: the WR/TE composite\<close>

definition mapWoprToPPG :: "rat \<Rightarrow> rat" where
  "mapWoprToPPG wopr =
     (if wopr \<le> 1 / 10 then wopr * 20
      else if wopr \<le> 2 / 10 then 2 + (wopr - 1 / 10) * 20
      else if wopr \<le> 3 / 10 then 4 + (wopr - 2 / 10) * 20
      else if wopr \<le> 4 / 10 then 6 + (wopr - 3 / 10) * 20
      else if wopr \<le> 5 / 10 then 8 + (wopr - 4 / 10) * 20
      else if wopr \<le> 6 / 10 then 10 + (wopr - 5 / 10) * 20
      else if wopr \<le> 7 / 10 then 12 + (wopr - 6 / 10) * 20
      else if wopr \<le> 8 / 10 then 14 + (wopr - 7 / 10) * 20
      else if wopr \<le> 9 / 10 then 16 + (wopr - 8 / 10) * 20
      else if wopr \<le> 1 then 18 + (wopr - 9 / 10) * 20
      else min (20 + (wopr - 1) * 10) 30)"

text \<open>The fields of a \<open>BaseRow\<close> that the composite reads. \<open>wopr\<close> is \<open>None\<close> when it
  is not a finite number.\<close>

record BaseRow =
  wopr :: "rat option"
  overall :: "rat option"
  priorYearPPG :: "rat option"
  fantasyProjection :: "rat option"

text \<open>A number used as a condition: absent and \<open>0\<close> are falsy.\<close>

definition truthy_num :: "rat option \<Rightarrow> bool" where
  "truthy_num v = (case v of None \<Rightarrow> False | Some x \<Rightarrow> x \<noteq> 0)"

definition num_or_zero :: "rat option \<Rightarrow> rat" where
  "num_or_zero v = (case v of None \<Rightarrow> 0 | Some x \<Rightarrow> x)"

definition wopr_ppg_of :: "BaseRow \<Rightarrow> rat" where
  "wopr_ppg_of r = (case wopr r of None \<Rightarrow> 0 | Some w \<Rightarrow> mapWoprToPPG w)"

text \<open>The composite of \<open>getPWOPRProjections\<close> before the injury adjustment (lines
  426--441).\<close>

definition pwoprComposite :: "BaseRow \<Rightarrow> rat" where
  "pwoprComposite r =
     (let wopr_ppg = wopr_ppg_of r;
          ovr_ppg = (case overall r of None \<Rightarrow> None | Some ov \<Rightarrow> Some ((ov / 100) * 20));
          prior = (case priorYearPPG r of
                     None \<Rightarrow> None
                   | Some py \<Rightarrow> if py > 0 then Some py else None);
          components =
            (if truthy_num (fantasyProjection r)
             then [num_or_zero (fantasyProjection r) * (4 / 10)] else [])
            @ (if wopr_ppg > 0 then [wopr_ppg * (3 / 10)] else [])
            @ (if truthy_num ovr_ppg then [num_or_zero ovr_ppg * (2 / 10)] else [])
            @ (if truthy_num prior then [num_or_zero prior * (1 / 10)] else [])
      in if length components > 0
         then fold (\<lambda>b a. a + b) components 0
              / (4 / 10 + (if wopr_ppg > 0 then 3 / 10 else 0)
                 + (if truthy_num ovr_ppg then 2 / 10 else 0)
                 + (if truthy_num prior then 1 / 10 else 0))
         else wopr_ppg)"

section \<open>PWOPRLinearModel: \<open>fitLinear\<close>\<close>








section \<open>Auxiliary definitions for the statements\<close>

text \<open>\<open>normalizeName\<close> as the specification words it: lower-case, trim, replace every
  character other than ASCII letters, digits and spaces with a space, collapse runs of
  white space, trim again, and drop a final white-space-delimited token that is one of the
  suffixes.\<close>

definition is_ascii_letter :: "char \<Rightarrow> bool" where
  "is_ascii_letter c =
     (let n = (of_char c :: nat) in (65 \<le> n \<and> n \<le> 90) \<or> (97 \<le> n \<and> n \<le> 122))"

definition is_digit :: "char \<Rightarrow> bool" where
  "is_digit c = (let n = (of_char c :: nat) in 48 \<le> n \<and> n \<le> 57)"

definition keep_alnum_space :: "string \<Rightarrow> string" where
  "keep_alnum_space s =
     map (\<lambda>c. if is_ascii_letter c \<or> is_digit c \<or> c = CHR '' '' then c else CHR '' '') s"

text \<open>The white-space-delimited tokens of a string.\<close>

fun tokens :: "string \<Rightarrow> string list" where
  "tokens [] = []"
| "tokens (c # cs) =
     (if is_space c then tokens cs
      else (case cs of
              [] \<Rightarrow> [[c]]
            | d # _ \<Rightarrow>
                if is_space d then [c] # tokens cs
                else (case tokens cs of [] \<Rightarrow> [[c]] | t # ts \<Rightarrow> (c # t) # ts)))"

definition drop_final_suffix :: "string \<Rightarrow> string" where
  "drop_final_suffix t =
     (let ts = tokens t
      in if ts \<noteq> [] \<and> last ts \<in> set suffixes then join_with (CHR '' '') (butlast ts) else t)"

definition normalize_spec :: "string option \<Rightarrow> string" where
  "normalize_spec name' =
     (case name' of
        None \<Rightarrow> []
      | Some s \<Rightarrow>
          drop_final_suffix (trim (collapse_ws (keep_alnum_space (trim (toLowerCase s))))))"

text \<open>The part of a \<open>LineupState\<close> that \<open>pickBestBall\<close> also keeps.\<close>

definition bb_of :: "LineupState \<Rightarrow> BestBallState" where
  "bb_of st = \<lparr>used = lu_used st, total = totalValue st\<rparr>"

text \<open>One guarded \<open>takeTop\<close>: what both optimizers do for a slot \<open>s\<close> with eligible
  positions \<open>E\<close>.\<close>

definition slot_take ::
  "PlayerProjection list \<Rightarrow> (string \<rightharpoonup> nat) \<Rightarrow> string \<Rightarrow> string set \<Rightarrow> BestBallState \<Rightarrow> BestBallState"
  where
  "slot_take pts slots s E st =
     (if slot_count slots s = 0 then st else takeTop pts E (slot_count slots s) st)"

text \<open>Example data.\<close>

definition example_rows :: "RankingRow list" where
  "example_rows =
     [\<lparr>name = ''Bijan Robinson'', tier = ''1'', position = ''RB'', assetType = None,
       taken = False, manualOverride = Some True, normalizedName = ''bijan robinson''\<rparr>,
      \<lparr>name = ''Breece Hall'', tier = ''1'', position = ''RB'', assetType = None,
       taken = False, manualOverride = None, normalizedName = ''breece hall''\<rparr>]"

definition example_values :: "ValuePlayer list" where
  "example_values =
     [\<lparr>vp_player_id = ''a'', vp_pos = ''WR'', vp_value = 10, vp_name = ''A''\<rparr>,
      \<lparr>vp_player_id = ''b'', vp_pos = ''TE'', vp_value = 5, vp_name = ''B''\<rparr>,
      \<lparr>vp_player_id = ''c'', vp_pos = ''RB'', vp_value = 1, vp_name = ''C''\<rparr>]"

definition example_kicker :: "ValuePlayer list" where
  "example_kicker = [\<lparr>vp_player_id = ''k'', vp_pos = ''K'', vp_value = 5, vp_name = ''Kicker''\<rparr>]"

definition example_points :: "PlayerProjection list" where
  "example_points =
     [\<lparr>pp_player_id = ''a'', pos = ''WR'', proj = 10\<rparr>,
      \<lparr>pp_player_id = ''b'', pos = ''RB'', proj = 7\<rparr>,
      \<lparr>pp_player_id = ''c'', pos = ''WR'', proj = 3\<rparr>]"

text \<open>Thirteen kicker picks, listed in descending pick order.\<close>

definition kicker_pick :: "nat \<Rightarrow> SleeperDraftPicksResponse" where
  "kicker_pick n =
     \<lparr>pick_no = n, player_id = show_nat n, picked_by = ''user'',
      metadata = Some \<lparr>first_name = Some ''Any'', last_name = Some ''Kicker'',
                        player_name = None, md_position = Some ''k'', md_team = None\<rparr>\<rparr>"

definition example_picks :: "SleeperDraftPicksResponse list" where
  "example_picks = map kicker_pick (rev [1 ..< 14])"

text \<open>The ranking file's header: the key a header is stored under, whether a column is
  present, and whether the required ones are.\<close>

definition header_key :: "string \<Rightarrow> string" where
  "header_key header = trim (toLowerCase header)"

definition has_column :: "string list \<Rightarrow> string \<Rightarrow> bool" where
  "has_column headers k = (k \<in> set (map header_key headers))"

definition required_columns_present :: "string list \<Rightarrow> bool" where
  "required_columns_present headers =
     (has_column headers ''name'' \<and> has_column headers ''tier''
      \<and> (has_column headers ''pos'' \<or> has_column headers ''position''))"

definition nonblank_lines :: "string \<Rightarrow> string list" where
  "nonblank_lines content = filter (\<lambda>line. trim line \<noteq> []) (split_lines content)"

text \<open>A data line that reaches the name, tier and position columns and whose name is not
  empty after trimming.\<close>

definition data_row_kept :: "nat \<Rightarrow> nat \<Rightarrow> nat \<Rightarrow> string \<Rightarrow> bool" where
  "data_row_kept ni ti pj line =
     (let values = parseCSVLine (trim line)
      in ni < length values \<and> ti < length values \<and> pj < length values
         \<and> trim (values ! ni) \<noteq> [])"

definition csv_error :: error where
  "csv_error = Error ''CSV must contain columns: name, tier, and pos/position''"

definition example_csv :: string where
  "example_csv =
     ''name,tier,pos,assetType'' @ [CHR 0x0A] @ ''Bijan Robinson,1,RB,PLAYER'' @ [CHR 0x0A]
       @ ''2026 1.01,1,PICK,PICK''"

definition example_short_row_csv :: string where
  "example_short_row_csv = ''name,tier,pos'' @ [CHR 0x0A] @ ''Bijan Robinson''"

text \<open>The specification's reading of line 235: an external projection that is present and
  positive, and no injury designation.\<close>

definition no_designation :: "string option \<Rightarrow> bool" where
  "no_designation injuryStatus = (or_empty injuryStatus = [])"

definition positive_projection :: "FuturePlayer \<Rightarrow> bool" where
  "positive_projection p = (case sleeperProj_of p of None \<Rightarrow> False | Some sp \<Rightarrow> sp > 0)"

definition example_out :: FuturePlayer where
  "example_out = \<lparr>injury_status = Some ''Out'', fp_pos = ''WR'', projection_entry = Some 10,
                   historicalAvg = 0, trend = 0, nonZeroCount = 0, weeksOut = 1\<rparr>"

definition example_wopr_only :: BaseRow where
  "example_wopr_only =
     \<lparr>wopr = Some (1 / 2), overall = None, priorYearPPG = None, fantasyProjection = None\<rparr>"



section \<open>NameMatcher: the alias lookup\<close>







section \<open>NameMatcher: \<open>normalizeName\<close> against its description\<close>

lemma is_space_space [simp]: "is_space (CHR '' '')"
  by (simp add: is_space_def)

lemma tokens_wf:
  "t \<in> set (tokens u) \<Longrightarrow> t \<noteq> [] \<and> (\<forall>c \<in> set t. \<not> is_space c)"
proof (induction u arbitrary: t)
  case Nil
  then show ?case by simp
next
  case (Cons c cs)
  show ?case
  proof (cases "is_space c")
    case True
    with Cons show ?thesis by simp
  next
    case False
    show ?thesis
    proof (cases cs)
      case Nil
      with False Cons.prems show ?thesis by simp
    next
      case (Cons d ds)
      show ?thesis
      proof (cases "is_space d")
        case True
        with False Cons Cons.prems Cons.IH show ?thesis by auto
      next
        case nd: False
        show ?thesis
        proof (cases "tokens cs")
          case Nil
          with False Cons nd Cons.prems show ?thesis by simp
        next
          case (Cons t' ts)
          have "t = c # t' \<or> t \<in> set ts"
            using Cons.prems False \<open>cs = d # ds\<close> nd Cons by simp
          moreover have "t' \<noteq> [] \<and> (\<forall>c \<in> set t'. \<not> is_space c)"
            using Cons.IH [of t'] Cons by simp
          moreover have "t \<in> set ts \<Longrightarrow> t \<noteq> [] \<and> (\<forall>c \<in> set t. \<not> is_space c)"
            using Cons.IH [of t] Cons by simp
          ultimately show ?thesis
            using False by auto
        qed
      qed
    qed
  qed
qed


lemma join_with_hd_last:
  assumes "ts \<noteq> []" and "\<forall>t \<in> set ts. t \<noteq> [] \<and> (\<forall>c \<in> set t. \<not> is_space c)"
  shows "join_with (CHR '' '') ts \<noteq> []
    \<and> \<not> is_space (hd (join_with (CHR '' '') ts))
    \<and> \<not> is_space (last (join_with (CHR '' '') ts))"
  using assms
proof (induction "CHR '' ''" ts rule: join_with.induct)
  case 1
  then show ?case by simp
next
  case (2 w)
  then show ?case by (cases w) auto
next
  case (3 w v vs)
  then show ?case by (cases w) auto
qed

lemma trim_all_space:
  assumes "\<forall>c \<in> set s. is_space c"
  shows "trim s = []"
proof -
  have "dropWhile is_space s = []"
    using assms by (simp add: dropWhile_eq_Nil_conv)
  then have "trim s = rev (dropWhile is_space (rev []))"
    unfolding trim_def by (rule arg_cong)
  then show ?thesis
    by simp
qed

lemma trim_sandwich:
  assumes "\<forall>c \<in> set pre. is_space c" and "\<forall>c \<in> set suf. is_space c"
    and "J \<noteq> []" and "\<not> is_space (hd J)" and "\<not> is_space (last J)"
  shows "trim (pre @ J @ suf) = J"
proof -
  have "dropWhile is_space (pre @ J @ suf) = dropWhile is_space (J @ suf)"
    using assms(1) dropWhile_append2 [of pre is_space "J @ suf"] by simp
  also have "\<dots> = J @ suf"
    using assms(3,4) by (cases J) simp_all
  finally have 1: "dropWhile is_space (pre @ J @ suf) = J @ suf" .
  have "dropWhile is_space (rev (J @ suf)) = dropWhile is_space (rev J)"
    using assms(2) dropWhile_append2 [of "rev suf" is_space "rev J"] by simp
  also have "\<dots> = rev J"
    using assms(3,5) by (cases "rev J") (auto simp: last_rev [symmetric] hd_rev)
  finally show ?thesis
    by (simp add: trim_def 1)
qed

lemma tokens_dropWhile: "tokens (dropWhile is_space cs) = tokens cs"
  by (induction cs) simp_all

lemma tokens_nonempty: "cs \<noteq> [] \<Longrightarrow> \<not> is_space (hd cs) \<Longrightarrow> tokens cs \<noteq> []"
  by (cases cs) (auto split: list.split)

lemma collapse_ws_tokens:
  "\<exists>suf. collapse_ws u =
      (if u \<noteq> [] \<and> is_space (hd u) then '' '' else []) @ join_with (CHR '' '') (tokens u) @ suf
    \<and> (suf = [] \<or> suf = '' '') \<and> (tokens u = [] \<longrightarrow> suf = [])"
proof (induction u rule: collapse_ws.induct)
  case 1
  then show ?case by simp
next
  case (2 c cs)
  show ?case
  proof (cases "is_space c")
    case True
    let ?v = "dropWhile is_space cs"
    have nv: "\<not> (?v \<noteq> [] \<and> is_space (hd ?v))"
      using hd_dropWhile [of is_space cs] by auto
    from 2(1) [OF True] nv obtain suf where
      "collapse_ws ?v = join_with (CHR '' '') (tokens ?v) @ suf"
      "suf = [] \<or> suf = '' ''" "tokens ?v = [] \<longrightarrow> suf = []"
      by auto
    then show ?thesis
      using True by (auto simp: tokens_dropWhile)
  next
    case False
    from 2(2) [OF False] obtain suf where
      c: "collapse_ws cs =
          (if cs \<noteq> [] \<and> is_space (hd cs) then '' '' else []) @ join_with (CHR '' '') (tokens cs) @ suf"
      and s: "suf = [] \<or> suf = '' ''" and e: "tokens cs = [] \<longrightarrow> suf = []"
      by auto
    show ?thesis
    proof (cases cs)
      case Nil
      then show ?thesis using False by simp
    next
      case (Cons d ds)
      show ?thesis
      proof (cases "is_space d")
        case True
        show ?thesis
        proof (cases "tokens cs")
          case Nil
          then show ?thesis
            using False True Cons c s e by simp
        next
          case (Cons t ts)
          then show ?thesis
            using False True \<open>cs = d # ds\<close> c s e by auto
        qed
      next
        case nd: False
        then obtain t ts where t: "tokens cs = t # ts"
          using tokens_nonempty [of cs] Cons by (cases "tokens cs") auto
        then show ?thesis
          using False nd Cons c s e by (cases ts) auto
      qed
    qed
  qed
qed

lemma trim_collapse_ws: "trim (collapse_ws u) = join_with (CHR '' '') (tokens u)"
proof -
  obtain suf where c: "collapse_ws u =
      (if u \<noteq> [] \<and> is_space (hd u) then '' '' else []) @ join_with (CHR '' '') (tokens u) @ suf"
    and s: "suf = [] \<or> suf = '' ''" and e: "tokens u = [] \<longrightarrow> suf = []"
    using collapse_ws_tokens by blast
  show ?thesis
  proof (cases "tokens u")
    case Nil
    then have "\<forall>c \<in> set (collapse_ws u). is_space c"
      using c e by simp
    then show ?thesis
      using Nil by (simp add: trim_all_space)
  next
    case (Cons t ts)
    have J: "join_with (CHR '' '') (tokens u) \<noteq> []
        \<and> \<not> is_space (hd (join_with (CHR '' '') (tokens u)))
        \<and> \<not> is_space (last (join_with (CHR '' '') (tokens u)))"
      using Cons tokens_wf [of _ u] by (intro join_with_hd_last) simp_all
    have p: "\<forall>c \<in> set (if u \<noteq> [] \<and> is_space (hd u) then '' '' else []). is_space c"
      by simp
    have q: "\<forall>c \<in> set suf. is_space c"
      using s by auto
    show ?thesis
      unfolding c using p q J by (intro trim_sandwich) simp_all
  qed
qed


lemma tokens_single:
  "w \<noteq> [] \<Longrightarrow> \<forall>c \<in> set w. \<not> is_space c \<Longrightarrow> tokens w = [w]"
proof (induction w)
  case Nil
  then show ?case by simp
next
  case (Cons c w)
  then show ?case by (cases w) auto
qed

lemma tokens_first:
  "w \<noteq> [] \<Longrightarrow> \<forall>c \<in> set w. \<not> is_space c \<Longrightarrow>
   tokens (w @ CHR '' '' # rest) = w # tokens rest"
proof (induction w)
  case Nil
  then show ?case by simp
next
  case (Cons c w)
  then show ?case by (cases w) auto
qed

lemma tokens_join_with:
  "\<forall>t \<in> set ts. t \<noteq> [] \<and> (\<forall>c \<in> set t. \<not> is_space c) \<Longrightarrow>
   tokens (join_with (CHR '' '') ts) = ts"
proof (induction "CHR '' ''" ts rule: join_with.induct)
  case 1
  then show ?case by simp
next
  case (2 w)
  then show ?case by (simp add: tokens_single)
next
  case (3 w v vs)
  then show ?case by (simp add: tokens_first)
qed

lemma split_on_single: "d \<notin> set w \<Longrightarrow> split_on d w = [w]"
  by (induction w) auto

lemma split_on_first: "d \<notin> set w \<Longrightarrow> split_on d (w @ d # rest) = w # split_on d rest"
  by (induction w) auto

lemma split_on_join_with:
  "ts \<noteq> [] \<Longrightarrow> \<forall>t \<in> set ts. d \<notin> set t \<Longrightarrow> split_on d (join_with d ts) = ts"
proof (induction d ts rule: join_with.induct)
  case (1 d)
  then show ?case by simp
next
  case (2 d w)
  then show ?case by (simp add: split_on_single)
next
  case (3 d w v vs)
  then show ?case by (simp add: split_on_first)
qed

lemma trim_join_with:
  assumes "\<forall>t \<in> set ts. t \<noteq> [] \<and> (\<forall>c \<in> set t. \<not> is_space c)"
  shows "trim (join_with (CHR '' '') ts) = join_with (CHR '' '') ts"
proof (cases ts)
  case Nil
  then show ?thesis by (simp add: trim_def)
next
  case (Cons t ts')
  then have "ts \<noteq> []" by simp
  from join_with_hd_last [OF this assms] trim_sandwich [of "[]" "[]" "join_with (CHR '' '') ts"]
  show ?thesis by simp
qed

lemma tokens_Cons_alt:
  "tokens (c # cs) =
     (if is_space c then tokens cs
      else if cs = [] then [[c]]
      else if is_space (hd cs) then [c] # tokens cs
      else (case tokens cs of [] \<Rightarrow> [[c]] | t # ts \<Rightarrow> (c # t) # ts))"
  by (cases cs) simp_all

lemma tokens_cong:
  "list_all2 (\<lambda>a b. a = b \<or> (is_space a \<and> is_space b)) xs ys \<Longrightarrow> tokens xs = tokens ys"
proof (induction xs ys rule: list_all2_induct)
  case Nil
  then show ?case by simp
next
  case (Cons x xs y ys)
  have sp: "is_space x \<longleftrightarrow> is_space y"
    using Cons.hyps(1) by auto
  have xy: "\<not> is_space x \<Longrightarrow> x = y"
    using Cons.hyps(1) by auto
  have e: "xs = [] \<longleftrightarrow> ys = []"
    using Cons.hyps(2) by (cases xs; cases ys) simp_all
  have h: "xs \<noteq> [] \<Longrightarrow> is_space (hd xs) \<longleftrightarrow> is_space (hd ys)"
    using Cons.hyps(2) by (cases xs; cases ys) auto
  have ih: "tokens xs = tokens ys"
    by (rule Cons.IH)
  show ?case
    unfolding tokens_Cons_alt [of x xs] tokens_Cons_alt [of y ys] ih
    using sp xy e h by auto
qed


lemma toLowerCase_char_not_upper:
  "\<not> (65 \<le> (of_char (toLowerCase_char c) :: nat) \<and> (of_char (toLowerCase_char c) :: nat) \<le> 90)"
  by (auto simp: toLowerCase_char_def Let_def)

lemma set_trim: "set (trim s) \<subseteq> set s"
proof
  fix c assume "c \<in> set (trim s)"
  then have "c \<in> set (dropWhile is_space (rev (dropWhile is_space s)))"
    by (simp add: trim_def)
  then have "c \<in> set (rev (dropWhile is_space s))"
    by (rule set_dropWhileD)
  then have "c \<in> set (dropWhile is_space s)"
    by simp
  then show "c \<in> set s"
    by (rule set_dropWhileD)
qed

lemma replace_keep_related:
  assumes "\<not> (65 \<le> (of_char c :: nat) \<and> (of_char c :: nat) \<le> 90)"
  shows "(if is_lower_alnum c \<or> is_space c then c else CHR '' '')
           = (if is_ascii_letter c \<or> is_digit c \<or> c = CHR '' '' then c else CHR '' '')
         \<or> (is_space (if is_lower_alnum c \<or> is_space c then c else CHR '' '')
            \<and> is_space (if is_ascii_letter c \<or> is_digit c \<or> c = CHR '' '' then c else CHR '' ''))"
proof -
  have "is_lower_alnum c \<longleftrightarrow> is_ascii_letter c \<or> is_digit c"
    using assms by (auto simp: is_lower_alnum_def is_ascii_letter_def is_digit_def Let_def)
  then show ?thesis
    by auto
qed

lemma tokens_replace_keep:
  "tokens (replace_non_alnum (trim (toLowerCase s)))
     = tokens (keep_alnum_space (trim (toLowerCase s)))"
proof -
  have "\<forall>c \<in> set (trim (toLowerCase s)).
          \<not> (65 \<le> (of_char c :: nat) \<and> (of_char c :: nat) \<le> 90)"
    using set_trim [of "toLowerCase s"] toLowerCase_char_not_upper
    by (auto simp: toLowerCase_def)
  then have "list_all2 (\<lambda>a b. a = b \<or> (is_space a \<and> is_space b))
      (replace_non_alnum (trim (toLowerCase s))) (keep_alnum_space (trim (toLowerCase s)))"
    unfolding replace_non_alnum_def keep_alnum_space_def list_all2_map1 list_all2_map2
      list_all2_same
    using replace_keep_related by blast
  then show ?thesis
    by (rule tokens_cong)
qed

lemma empty_not_suffix: "[] \<notin> set suffixes"
  by (simp add: suffixes_def)

lemma suffix_step:
  assumes wf: "\<forall>t \<in> set ts. t \<noteq> [] \<and> (\<forall>c \<in> set t. \<not> is_space c)"
  shows "(let normalized = join_with (CHR '' '') ts;
              words = split_on (CHR '' '') normalized;
              lastWord = last words
          in if lastWord \<in> set suffixes
             then trim (join_with (CHR '' '') (butlast words))
             else normalized)
         = drop_final_suffix (join_with (CHR '' '') ts)"
proof (cases ts)
  case Nil
  then show ?thesis
    by (simp add: drop_final_suffix_def empty_not_suffix)
next
  case (Cons t ts')
  then have ne: "ts \<noteq> []" by simp
  have nosp: "\<forall>t \<in> set ts. CHR '' '' \<notin> set t"
    using wf is_space_space by blast
  have sp: "split_on (CHR '' '') (join_with (CHR '' '') ts) = ts"
    using ne nosp by (rule split_on_join_with)
  have tk: "tokens (join_with (CHR '' '') ts) = ts"
    using wf by (rule tokens_join_with)
  have "\<forall>t \<in> set (butlast ts). t \<noteq> [] \<and> (\<forall>c \<in> set t. \<not> is_space c)"
    using wf by (auto dest: in_set_butlastD)
  then have tr: "trim (join_with (CHR '' '') (butlast ts)) = join_with (CHR '' '') (butlast ts)"
    by (rule trim_join_with)
  show ?thesis
    by (simp add: Let_def drop_final_suffix_def sp tk tr ne)
qed

lemma normalizeName_refines:
  "normalizeName nm = normalize_spec nm"
proof (cases nm)
  case None
  then show ?thesis
    by (simp add: normalizeName_def normalize_spec_def)
next
  case (Some s)
  let ?ts = "tokens (keep_alnum_space (trim (toLowerCase s)))"
  have wf: "\<forall>t \<in> set ?ts. t \<noteq> [] \<and> (\<forall>c \<in> set t. \<not> is_space c)"
    using tokens_wf by blast
  have n: "trim (collapse_ws (replace_non_alnum (trim (toLowerCase s))))
            = join_with (CHR '' '') ?ts"
    by (simp only: trim_collapse_ws tokens_replace_keep)
  have k: "trim (collapse_ws (keep_alnum_space (trim (toLowerCase s))))
            = join_with (CHR '' '') ?ts"
    by (simp only: trim_collapse_ws)
  show ?thesis
  proof (cases "s = []")
    case True
    then show ?thesis
      by (simp add: Some normalizeName_def normalize_spec_def toLowerCase_def trim_def
          keep_alnum_space_def drop_final_suffix_def)
  next
    case False
    then show ?thesis
      unfolding Some normalizeName_def normalize_spec_def option.case n k
      using suffix_step [OF wf] by simp
  qed
qed

text \<open>
  C6 (as stated, refuted). The apostrophe of \<open>Ja'Marr\<close> becomes a space, so the name
  normalizes to \<open>ja marr chase\<close>, which is not the normal form \<open>jamarr chase\<close> of
  \<open>jamarr chase\<close>.
\<close>

theorem normalizeName_apostrophe_splits:
  "normalizeName (Some ''Ja'Marr Chase Jr.'') \<noteq> normalizeName (Some ''jamarr chase'')"
proof -
  have "normalizeName (Some ''Ja'Marr Chase Jr.'') = ''ja marr chase''" by code_simp
  moreover have "normalizeName (Some ''jamarr chase'') = ''jamarr chase''" by code_simp
  ultimately show ?thesis by simp
qed


text \<open>
  C6 (amended). \<open>normalizeName\<close> is a total function that lower-cases, trims, replaces
  every character other than ASCII letters, digits and spaces with a space, collapses
  runs of white space, trims again, and drops a final white-space-delimited token that is
  one of \<open>jr, sr, ii, iii, iv, v\<close>. Punctuation becomes a space and is not deleted:
  \<open>Ja'Marr Chase Jr.\<close> and \<open>Ja Marr Chase\<close> both normalize to \<open>ja marr chase\<close>. The
  empty string and a null or undefined argument normalize to the empty string.
\<close>

theorem normalizeName_algorithm:
  "normalizeName nm = normalize_spec nm
   \<and> normalizeName (Some ''Ja'Marr Chase Jr.'') = ''ja marr chase''
   \<and> normalizeName (Some ''Ja Marr Chase'') = ''ja marr chase''
   \<and> normalizeName (Some []) = []
   \<and> normalizeName None = []"
proof -
  have "normalizeName (Some ''Ja'Marr Chase Jr.'') = ''ja marr chase''" by code_simp
  moreover have "normalizeName (Some ''Ja Marr Chase'') = ''ja marr chase''" by code_simp
  moreover have "normalizeName (Some []) = []" by (simp add: normalizeName_def)
  moreover have "normalizeName None = []" by (simp add: normalizeName_def)
  ultimately show ?thesis
    using normalizeName_refines by simp
qed

section \<open>Reconciliation merge\<close>

lemma onPicksUpdate_length: "length (onPicksUpdate S rs) = length rs"
  by (simp add: onPicksUpdate_def)

lemma onPicksUpdate_nth:
  "i < length rs \<Longrightarrow>
   onPicksUpdate S rs ! i =
     (if manualOverride (rs ! i) = Some True then rs ! i
      else (rs ! i)\<lparr>taken := normalizedName (rs ! i) \<in> S\<rparr>)"
  by (simp add: onPicksUpdate_def Let_def)

lemma fold_onPicksUpdate_length: "length (fold onPicksUpdate cycles rs) = length rs"
  by (induction cycles arbitrary: rs) (simp_all add: onPicksUpdate_length)

lemma fold_onPicksUpdate_override:
  "i < length rs \<Longrightarrow> manualOverride (rs ! i) = Some True \<Longrightarrow>
   fold onPicksUpdate cycles rs ! i = rs ! i"
proof (induction cycles arbitrary: rs)
  case Nil
  then show ?case by simp
next
  case (Cons S cycles)
  have step: "onPicksUpdate S rs ! i = rs ! i"
    using Cons.prems by (simp add: onPicksUpdate_nth)
  have "fold onPicksUpdate cycles (onPicksUpdate S rs) ! i = onPicksUpdate S rs ! i"
    using Cons.prems step by (intro Cons.IH) (simp_all add: onPicksUpdate_length)
  with step show ?case by simp
qed

lemma handleToggleTaken_nth:
  "i < length rs \<Longrightarrow>
   handleToggleTaken i rs =
     Some (rs[i := (rs ! i)\<lparr>taken := \<not> taken (rs ! i), manualOverride := Some True\<rparr>])"
  by (simp add: handleToggleTaken_def)

text \<open>
  C1. In a ranking list, a row whose \<open>manualOverride\<close> is true is left as it is by any
  number of merge cycles, whatever the taken-name sets are; a row whose
  \<open>manualOverride\<close> is false or unset gets \<open>taken\<close> set to the membership of its
  normalized name in the taken-name set. A manual toggle flips \<open>taken\<close> and sets
  \<open>manualOverride\<close>, after which the merges leave the row alone.
\<close>

theorem manualOverride_rows_untouched:
  assumes "i < length rs"
  shows "length (fold onPicksUpdate cycles rs) = length rs
    \<and> (manualOverride (rs ! i) = Some True \<longrightarrow> fold onPicksUpdate cycles rs ! i = rs ! i)
    \<and> (manualOverride (rs ! i) \<noteq> Some True \<longrightarrow>
         onPicksUpdate S rs ! i = (rs ! i)\<lparr>taken := normalizedName (rs ! i) \<in> S\<rparr>)
    \<and> (\<exists>rs'. handleToggleTaken i rs = Some rs'
          \<and> rs' ! i = (rs ! i)\<lparr>taken := \<not> taken (rs ! i), manualOverride := Some True\<rparr>
          \<and> fold onPicksUpdate cycles rs' ! i = rs' ! i)"
proof -
  let ?rs' = "rs[i := (rs ! i)\<lparr>taken := \<not> taken (rs ! i), manualOverride := Some True\<rparr>]"
  have t: "handleToggleTaken i rs = Some ?rs'"
    using assms by (rule handleToggleTaken_nth)
  have n: "?rs' ! i = (rs ! i)\<lparr>taken := \<not> taken (rs ! i), manualOverride := Some True\<rparr>"
    using assms by simp
  have "fold onPicksUpdate cycles ?rs' ! i = ?rs' ! i"
    using assms n by (intro fold_onPicksUpdate_override) simp_all
  with t n have 4: "\<exists>rs'. handleToggleTaken i rs = Some rs'
          \<and> rs' ! i = (rs ! i)\<lparr>taken := \<not> taken (rs ! i), manualOverride := Some True\<rparr>
          \<and> fold onPicksUpdate cycles rs' ! i = rs' ! i"
    by blast
  show ?thesis
    using assms 4 fold_onPicksUpdate_length fold_onPicksUpdate_override onPicksUpdate_nth
    by auto
qed

theorem manualOverride_rows_untouched_witness:
  "fold onPicksUpdate [{''bijan robinson'', ''breece hall''}, {}] example_rows ! 0
     = example_rows ! 0
   \<and> onPicksUpdate {''bijan robinson'', ''breece hall''} example_rows ! 1
     = (example_rows ! 1)\<lparr>taken := True\<rparr>"
proof -
  have i0: "0 < length example_rows" and i1: "1 < length example_rows"
    by (simp_all add: example_rows_def)
  have m0: "manualOverride (example_rows ! 0) = Some True"
    by (simp add: example_rows_def)
  have m1: "manualOverride (example_rows ! 1) \<noteq> Some True"
    by (simp add: example_rows_def)
  have n1: "normalizedName (example_rows ! 1) \<in> {''bijan robinson'', ''breece hall''}"
    by (simp add: example_rows_def)
  show ?thesis
    using m0 m1 n1
      manualOverride_rows_untouched [OF i0, of "[{''bijan robinson'', ''breece hall''}, {}]"]
      manualOverride_rows_untouched [OF i1, of _ "{''bijan robinson'', ''breece hall''}"]
    by simp
qed

section \<open>Best-Ball optimizer: input order\<close>

lemma takeTop_pool_perm:
  assumes "mset ys = mset xs" and "distinct (map proj xs)"
  shows "takeTop_pool ys u E n = takeTop_pool xs u E n"
proof -
  let ?P = "\<lambda>p. pp_player_id p \<notin> u \<and> pos p \<in> E"
  let ?f = "\<lambda>p. - proj p"
  have inj: "inj_on proj (set xs)"
    using assms(2) by (simp add: distinct_map)
  have sets: "set ys = set xs"
    using assms(1) by (rule mset_eq_setD)
  have "inj_on ?f (set (filter ?P ys))"
    using inj sets by (auto simp: inj_on_def)
  moreover have "mset (filter ?P ys) = mset (filter ?P xs)"
    using assms(1) by simp
  moreover have "sorted (map ?f (sort_key ?f (filter ?P xs)))"
    by (rule sorted_sort_key)
  ultimately have "sort_key ?f (filter ?P ys) = sort_key ?f (filter ?P xs)"
    by (intro sort_key_inj_key_eq) simp_all
  then show ?thesis
    by (simp add: takeTop_pool_def sort_byProjectionDesc_def)
qed

lemma takeTop_perm:
  assumes "mset ys = mset xs" and "distinct (map proj xs)"
  shows "takeTop ys = takeTop xs"
  by (intro ext) (simp add: takeTop_def takeTop_pool_perm [OF assms])

lemma pickBestBall_state_perm:
  assumes "mset ys = mset xs" and "distinct (map proj xs)"
  shows "pickBestBall_state ys slots = pickBestBall_state xs slots"
proof -
  have "fixed_step ys slots = fixed_step xs slots"
    unfolding fixed_step_def takeTop_perm [OF assms] ..
  moreover have "flex_step ys slots = flex_step xs slots"
    unfolding flex_step_def takeTop_perm [OF assms] ..
  ultimately show ?thesis
    by (simp add: pickBestBall_state_def)
qed

text \<open>
  C7. For two candidate lists that are permutations of each other and whose projected
  points are pairwise distinct, \<open>pickBestBall\<close> returns the same total for every slot
  mapping. For any list, the sort inside a take-top-N step keeps candidates with equal
  projected points in their input order, and the step takes the first \<open>n\<close> of the sorted
  eligible unused candidates; \<open>pickBestBall\<close> being a function, its total is determined
  by the list.
\<close>

theorem pickBestBall_order_invariant:
  "(mset ys = mset xs \<and> distinct (map proj xs) \<longrightarrow> pickBestBall ys slots = pickBestBall xs slots)
   \<and> filter (\<lambda>p. proj p = v) (sort_byProjectionDesc ps) = filter (\<lambda>p. proj p = v) ps
   \<and> takeTop_pool ps u E n
       = take n (sort_byProjectionDesc (filter (\<lambda>p. pp_player_id p \<notin> u \<and> pos p \<in> E) ps))"
proof -
  have "filter (\<lambda>p. - proj p = - v) (sort_key (\<lambda>p. - proj p) ps)
        = filter (\<lambda>p. - proj p = - v) ps"
    by (rule sort_key_stable)
  then have "filter (\<lambda>p. proj p = v) (sort_byProjectionDesc ps) = filter (\<lambda>p. proj p = v) ps"
    by (simp add: sort_byProjectionDesc_def)
  moreover have "mset ys = mset xs \<and> distinct (map proj xs)
      \<longrightarrow> pickBestBall ys slots = pickBestBall xs slots"
    using pickBestBall_state_perm [of ys xs slots] by (simp add: pickBestBall_def)
  ultimately show ?thesis
    by (simp add: takeTop_pool_def)
qed


theorem pickBestBall_order_invariant_witness:
  "mset (rev example_points) = mset example_points
   \<and> distinct (map proj example_points)
   \<and> pickBestBall (rev example_points) [''WR'' \<mapsto> 1, ''FLEX'' \<mapsto> 1] = 17
   \<and> pickBestBall example_points [''WR'' \<mapsto> 1, ''FLEX'' \<mapsto> 1] = 17"
proof -
  have h1: "mset (rev example_points) = mset example_points" by simp
  have h2: "distinct (map proj example_points)" by (simp add: example_points_def)
  have v: "pickBestBall example_points [''WR'' \<mapsto> 1, ''FLEX'' \<mapsto> 1] = 17" by code_simp
  show ?thesis
    using h1 h2 v
      pickBestBall_order_invariant [of "rev example_points" example_points
        "[''WR'' \<mapsto> 1, ''FLEX'' \<mapsto> 1]"]
    by simp
qed

section \<open>Power Rankings optimizer against the Best-Ball optimizer\<close>

lemma insort_key_map_comm:
  "insort_key f (g x) (map g ys) = map g (insort_key (\<lambda>y. f (g y)) x ys)"
  by (induction ys) simp_all

lemma sort_key_map_comm:
  "sort_key f (map g xs) = map g (sort_key (\<lambda>y. f (g y)) xs)"
  by (induction xs) (simp_all add: insort_key_map_comm)

lemma takeTop_pool_as_projection:
  "takeTop_pool (map as_projection players) u E n = map as_projection (value_pool players u E n)"
  by (simp add: takeTop_pool_def value_pool_def sort_byProjectionDesc_def filter_map
      sort_key_map_comm take_map o_def as_projection_def)

lemma bb_of_fold_value:
  "bb_of (fold (\<lambda>p st'.
             \<lparr>lu_used = insert (vp_player_id p) (lu_used st'),
              totalValue = totalValue st' + vp_value p,
              positionalValues = g p st'\<rparr>) pool st)
   = fold (\<lambda>p st'. \<lparr>used = insert (pp_player_id p) (used st'), total = total st' + proj p\<rparr>)
       (map as_projection pool) (bb_of st)"
  by (induction pool arbitrary: st) (simp_all add: bb_of_def as_projection_def)

lemma bb_of_takeTopValue:
  "bb_of (takeTopValue players E n b st) = takeTop (map as_projection players) E n (bb_of st)"
  unfolding takeTopValue_def takeTop_def takeTop_pool_as_projection bb_of_fold_value
  by (simp add: bb_of_def)

lemma bb_of_takeTopWithQBTracking:
  "bb_of (takeTopWithQBTracking players E n st) = takeTop (map as_projection players) E n (bb_of st)"
  unfolding takeTopWithQBTracking_def takeTop_def takeTop_pool_as_projection bb_of_fold_value
  by (simp add: bb_of_def)

lemma slot_take_zero: "slot_count slots s = 0 \<Longrightarrow> slot_take pts slots s E st = st"
  by (simp add: slot_take_def)

lemma bb_of_when_slot:
  assumes "\<And>n st. bb_of (f n st) = takeTop pts E n (bb_of st)"
  shows "bb_of (when_slot slots s f st) = slot_take pts slots s E (bb_of st)"
  by (simp add: when_slot_def slot_take_def Let_def assms)

lemma FLEX_MAP_simps:
  "FLEX_MAP ''WRRB'' = Some {''WR'', ''RB''}"
  "FLEX_MAP ''WRRBTE'' = Some {''WR'', ''RB'', ''TE''}"
  "FLEX_MAP ''FLEX'' = Some {''WR'', ''RB'', ''TE''}"
  "FLEX_MAP ''SUPER_FLEX'' = Some {''QB'', ''WR'', ''RB'', ''TE''}"
  by code_simp+

lemma bb_of_lineup_init: "bb_of lineup_init = \<lparr>used = {}, total = 0\<rparr>"
  by (simp add: bb_of_def lineup_init_def)

lemma fixed_step_slot_take: "fixed_step pts slots s st = slot_take pts slots s {s} st"
  by (simp add: fixed_step_def slot_take_def Let_def)

lemma flex_step_slot_take:
  "FLEX_MAP s = Some E \<Longrightarrow> flex_step pts slots s st = slot_take pts slots s E st"
  by (simp add: flex_step_def slot_take_def Let_def)

lemma pickBestBall_state_unfold:
  "pickBestBall_state pts slots =
    slot_take pts slots ''SUPER_FLEX'' {''QB'', ''WR'', ''RB'', ''TE''}
      (slot_take pts slots ''FLEX'' {''WR'', ''RB'', ''TE''}
        (slot_take pts slots ''WRRBTE'' {''WR'', ''RB'', ''TE''}
          (slot_take pts slots ''WRRB'' {''WR'', ''RB''}
            (slot_take pts slots ''DST'' {''DST''} (slot_take pts slots ''K'' {''K''}
              (slot_take pts slots ''TE'' {''TE''} (slot_take pts slots ''WR'' {''WR''}
                (slot_take pts slots ''RB'' {''RB''} (slot_take pts slots ''QB'' {''QB''}
                   \<lparr>used = {}, total = 0\<rparr>)))))))))"
  unfolding pickBestBall_state_def fixedOrder_def flexOrder_def fold_simps id_apply o_apply
    fixed_step_slot_take flex_step_slot_take [OF FLEX_MAP_simps(1)]
    flex_step_slot_take [OF FLEX_MAP_simps(2)] flex_step_slot_take [OF FLEX_MAP_simps(3)]
    flex_step_slot_take [OF FLEX_MAP_simps(4)] ..

lemma bb_of_pickOptimalLineupByValue:
  "bb_of (pickOptimalLineupByValue players slots) =
    slot_take (map as_projection players) slots ''SUPER_FLEX'' {''QB'', ''WR'', ''RB'', ''TE''}
      (slot_take (map as_projection players) slots ''WRRBTE'' {''WR'', ''RB'', ''TE''}
        (slot_take (map as_projection players) slots ''WRRB'' {''WR'', ''RB''}
          (slot_take (map as_projection players) slots ''FLEX'' {''WR'', ''RB'', ''TE''}
            (slot_take (map as_projection players) slots ''TE'' {''TE''}
              (slot_take (map as_projection players) slots ''WR'' {''WR''}
                (slot_take (map as_projection players) slots ''RB'' {''RB''}
                  (slot_take (map as_projection players) slots ''QB'' {''QB''}
                     \<lparr>used = {}, total = 0\<rparr>)))))))"
  unfolding pickOptimalLineupByValue_def Let_def
    bb_of_when_slot [OF bb_of_takeTopValue] bb_of_when_slot [OF bb_of_takeTopWithQBTracking]
    bb_of_lineup_init ..

text \<open>
  C3 (as stated, refuted). The Power Rankings optimizer does not always reach the total
  of the Best-Ball optimizer run on value: it fills \<open>FLEX\<close> before \<open>WRRB\<close> and
  \<open>WRRBTE\<close> (with one \<open>FLEX\<close> and one \<open>WRRB\<close> slot and a WR worth 10, a TE worth 5
  and an RB worth 1 it totals 11, the Best-Ball optimizer 15), and it fills no \<open>K\<close> or
  \<open>DST\<close> slot (0 against 5 for one kicker worth 5 and one \<open>K\<close> slot).
\<close>

theorem value_lineup_differs_from_bestball:
  "totalValue (pickOptimalLineupByValue example_values [''FLEX'' \<mapsto> 1, ''WRRB'' \<mapsto> 1])
     \<noteq> pickBestBall (map as_projection example_values) [''FLEX'' \<mapsto> 1, ''WRRB'' \<mapsto> 1]
   \<and> totalValue (pickOptimalLineupByValue example_kicker [''K'' \<mapsto> 1])
     \<noteq> pickBestBall (map as_projection example_kicker) [''K'' \<mapsto> 1]"
proof -
  have "totalValue (pickOptimalLineupByValue example_values [''FLEX'' \<mapsto> 1, ''WRRB'' \<mapsto> 1]) = 11"
    by code_simp
  moreover have
    "pickBestBall (map as_projection example_values) [''FLEX'' \<mapsto> 1, ''WRRB'' \<mapsto> 1] = 15"
    by code_simp
  moreover have "totalValue (pickOptimalLineupByValue example_kicker [''K'' \<mapsto> 1]) = 0"
    by code_simp
  moreover have "pickBestBall (map as_projection example_kicker) [''K'' \<mapsto> 1] = 5"
    by code_simp
  ultimately show ?thesis by simp
qed

lemma slot_take_without_K_DST:
  "slot_take pts (slots(''K'' := None, ''DST'' := None)) ''QB'' E st = slot_take pts slots ''QB'' E st"
  "slot_take pts (slots(''K'' := None, ''DST'' := None)) ''RB'' E st = slot_take pts slots ''RB'' E st"
  "slot_take pts (slots(''K'' := None, ''DST'' := None)) ''WR'' E st = slot_take pts slots ''WR'' E st"
  "slot_take pts (slots(''K'' := None, ''DST'' := None)) ''TE'' E st = slot_take pts slots ''TE'' E st"
  "slot_take pts (slots(''K'' := None, ''DST'' := None)) ''K'' E st = st"
  "slot_take pts (slots(''K'' := None, ''DST'' := None)) ''DST'' E st = st"
  "slot_take pts (slots(''K'' := None, ''DST'' := None)) ''WRRB'' E st
     = slot_take pts slots ''WRRB'' E st"
  "slot_take pts (slots(''K'' := None, ''DST'' := None)) ''WRRBTE'' E st
     = slot_take pts slots ''WRRBTE'' E st"
  "slot_take pts (slots(''K'' := None, ''DST'' := None)) ''FLEX'' E st
     = slot_take pts slots ''FLEX'' E st"
  "slot_take pts (slots(''K'' := None, ''DST'' := None)) ''SUPER_FLEX'' E st
     = slot_take pts slots ''SUPER_FLEX'' E st"
  by (simp_all add: slot_take_def slot_count_def)

text \<open>
  C3 (amended). The Power Rankings optimizer fills the exact slots \<open>QB\<close>, \<open>RB\<close>, \<open>WR\<close>,
  \<open>TE\<close> and no \<open>K\<close> or \<open>DST\<close> slot. For every candidate list, and every slot mapping in
  which \<open>FLEX\<close> slots do not occur together with \<open>WRRB\<close> or \<open>WRRBTE\<close> slots, its total
  value equals \<open>pickBestBall\<close> applied with value in place of projected points to the slot
  mapping without its \<open>K\<close> and \<open>DST\<close> entries.
\<close>

theorem value_lineup_matches_bestball:
  assumes "slot_count slots ''FLEX'' = 0
         \<or> (slot_count slots ''WRRB'' = 0 \<and> slot_count slots ''WRRBTE'' = 0)"
  shows "totalValue (pickOptimalLineupByValue players slots)
         = pickBestBall (map as_projection players) (slots(''K'' := None, ''DST'' := None))"
proof -
  have "bb_of (pickOptimalLineupByValue players slots)
        = pickBestBall_state (map as_projection players) (slots(''K'' := None, ''DST'' := None))"
    unfolding bb_of_pickOptimalLineupByValue pickBestBall_state_unfold slot_take_without_K_DST
    using assms by (elim disjE conjE) (simp_all only: slot_take_zero)
  then have "total (bb_of (pickOptimalLineupByValue players slots))
        = total (pickBestBall_state (map as_projection players)
                   (slots(''K'' := None, ''DST'' := None)))"
    by simp
  then show ?thesis
    by (simp add: bb_of_def pickBestBall_def)
qed

theorem value_lineup_matches_bestball_witness:
  "slot_count [''QB'' \<mapsto> 1, ''K'' \<mapsto> 1, ''FLEX'' \<mapsto> 1] ''WRRB'' = 0
   \<and> slot_count [''QB'' \<mapsto> 1, ''K'' \<mapsto> 1, ''FLEX'' \<mapsto> 1] ''WRRBTE'' = 0
   \<and> totalValue (pickOptimalLineupByValue (example_values @ example_kicker)
          [''QB'' \<mapsto> 1, ''K'' \<mapsto> 1, ''FLEX'' \<mapsto> 1]) = 10
   \<and> pickBestBall (map as_projection (example_values @ example_kicker))
          ([''QB'' \<mapsto> 1, ''K'' \<mapsto> 1, ''FLEX'' \<mapsto> 1](''K'' := None, ''DST'' := None)) = 10"
proof -
  let ?slots = "[''QB'' \<mapsto> (1::nat), ''K'' \<mapsto> 1, ''FLEX'' \<mapsto> 1]"
  have w: "slot_count ?slots ''WRRB'' = 0" by code_simp
  have t: "slot_count ?slots ''WRRBTE'' = 0" by code_simp
  have v: "totalValue (pickOptimalLineupByValue (example_values @ example_kicker) ?slots) = 10"
    by code_simp
  have h: "slot_count ?slots ''FLEX'' = 0
         \<or> (slot_count ?slots ''WRRB'' = 0 \<and> slot_count ?slots ''WRRBTE'' = 0)"
    using w t by simp
  show ?thesis
    using w t v value_lineup_matches_bestball [OF h, of "example_values @ example_kicker"]
    by simp
qed

section \<open>DraftReconciler: the rookie-pick remap\<close>

lemma fetch_step_kicker:
  assumes "pick_position p = ''K''"
  shows "fetch_step leagueSize True st p =
     \<lparr>pickedNames =
         insert (normalizeName (Some (rookiePickName leagueSize (Suc (kickerCount st)))))
           (pickedNames st),
      draftPicks = draftPicks st @
         [\<lparr>pickNo = pick_no p,
           pickDisplay = formatPickDisplay leagueSize (pick_no p),
           playerName = rookiePickName leagueSize (Suc (kickerCount st)),
           dp_position = ''PICK'', dp_team = [], pickedBy = picked_by p, isMyPick = False\<rparr>],
      kickerCount = Suc (kickerCount st)\<rparr>"
  using assms by (simp add: fetch_step_def Let_def)

lemma fetch_step_kickerCount:
  "kickerCount (fetch_step leagueSize True st p)
     = kickerCount st + (if pick_position p = ''K'' then 1 else 0)"
  by (simp add: fetch_step_def Let_def split: option.split)

lemma foldl_fetch_step_kickerCount:
  "kickerCount (foldl (fetch_step leagueSize True) st ps)
     = kickerCount st + length (filter (\<lambda>q. pick_position q = ''K'') ps)"
  by (induction ps arbitrary: st) (simp_all add: fetch_step_kickerCount)

lemma fetch_step_grows:
  "\<exists>ext. draftPicks (fetch_step leagueSize m st p) = draftPicks st @ ext
     \<and> pickedNames st \<subseteq> pickedNames (fetch_step leagueSize m st p)"
  by (auto simp: fetch_step_def Let_def split: option.split)

lemma foldl_fetch_step_grows:
  "\<exists>ext. draftPicks (foldl (fetch_step leagueSize m) st ps) = draftPicks st @ ext
     \<and> pickedNames st \<subseteq> pickedNames (foldl (fetch_step leagueSize m) st ps)"
proof (induction ps arbitrary: st)
  case Nil
  then show ?case by simp
next
  case (Cons p ps)
  obtain e1 where e1: "draftPicks (fetch_step leagueSize m st p) = draftPicks st @ e1"
    and s1: "pickedNames st \<subseteq> pickedNames (fetch_step leagueSize m st p)"
    using fetch_step_grows by blast
  obtain e2 where e2: "draftPicks (foldl (fetch_step leagueSize m) (fetch_step leagueSize m st p) ps)
        = draftPicks (fetch_step leagueSize m st p) @ e2"
    and s2: "pickedNames (fetch_step leagueSize m st p)
        \<subseteq> pickedNames (foldl (fetch_step leagueSize m) (fetch_step leagueSize m st p) ps)"
    using Cons.IH by blast
  show ?case
    using e1 e2 s1 s2 by auto
qed

lemma rookiePickName_formula:
  assumes "0 < leagueSize" and "0 < k"
  shows "rookiePickName leagueSize k =
     ''2026 '' @ show_nat (nat \<lceil>(of_nat k :: rat) / of_nat leagueSize\<rceil>) @ ''.'' @
       padStart2 (show_nat (((k - 1) mod leagueSize) + 1))"
  using assms by (simp add: rookiePickName_def round_text_def pickInRound_text_def)

text \<open>
  C5. In rookie-pick mode with a positive league size, let \<open>p\<close> be a kicker pick of the
  snapshot and \<open>pre\<close> the picks before it in ascending \<open>pick_no\<close> order. With \<open>k\<close> one
  more than the number of kicker picks in \<open>pre\<close> (the counter starts at \<open>0\<close> in every
  cycle, and equals \<open>k - 1\<close> when \<open>p\<close> is reached), the pick emitted for \<open>p\<close> is named
  \<open>2026 <round>.<pickInRound padded to two digits>\<close> with \<open>round = ceil (k / leagueSize)\<close>
  and \<open>pickInRound = ((k - 1) mod leagueSize) + 1\<close>, and the normalized name is in the
  taken-name set. With league size 12 the 13th name is \<open>2026 2.01\<close>.
\<close>

theorem rookie_pick_remap:
  assumes "sort_key pick_no picks = pre @ p # post"
    and "pick_position p = ''K''"
    and "0 < leagueSize"
  shows
    "(let k = Suc (length (filter (\<lambda>q. pick_position q = ''K'') pre));
          nm = ''2026 '' @ show_nat (nat \<lceil>(of_nat k :: rat) / of_nat leagueSize\<rceil>) @ ''.'' @
                 padStart2 (show_nat (((k - 1) mod leagueSize) + 1));
          st = foldl (fetch_step leagueSize True) fetch_init pre;
          res = fetchPicks leagueSize True picks
      in kickerCount st = k - 1
         \<and> length (draftPicks st) < length (draftPicks res)
         \<and> draftPicks res ! length (draftPicks st) =
             \<lparr>pickNo = pick_no p, pickDisplay = formatPickDisplay leagueSize (pick_no p),
              playerName = nm, dp_position = ''PICK'', dp_team = [],
              pickedBy = picked_by p, isMyPick = False\<rparr>
         \<and> normalizeName (Some nm) \<in> pickedNames res)
     \<and> rookiePickName 12 13 = ''2026 2.01''"
proof -
  define k where "k = Suc (length (filter (\<lambda>q. pick_position q = ''K'') pre))"
  define st where "st = foldl (fetch_step leagueSize True) fetch_init pre"
  define st' where "st' = fetch_step leagueSize True st p"
  define res where "res = fetchPicks leagueSize True picks"
  define nm where "nm = rookiePickName leagueSize k"
  have kc: "kickerCount st = k - 1"
    by (simp add: st_def k_def foldl_fetch_step_kickerCount fetch_init_def)
  then have sk: "Suc (kickerCount st) = k"
    by (simp add: k_def)
  have step: "draftPicks st' = draftPicks st @
         [\<lparr>pickNo = pick_no p, pickDisplay = formatPickDisplay leagueSize (pick_no p),
           playerName = nm, dp_position = ''PICK'', dp_team = [],
           pickedBy = picked_by p, isMyPick = False\<rparr>]"
    and names: "normalizeName (Some nm) \<in> pickedNames st'"
    by (simp_all add: st'_def fetch_step_kicker [OF assms(2)] sk nm_def)
  have res: "res = foldl (fetch_step leagueSize True) st' post"
    by (simp add: res_def fetchPicks_def assms(1) st_def st'_def)
  obtain ext where ext: "draftPicks res = draftPicks st' @ ext"
    and sub: "pickedNames st' \<subseteq> pickedNames res"
    unfolding res using foldl_fetch_step_grows by blast
  have nth: "draftPicks res ! length (draftPicks st) =
         \<lparr>pickNo = pick_no p, pickDisplay = formatPickDisplay leagueSize (pick_no p),
           playerName = nm, dp_position = ''PICK'', dp_team = [],
           pickedBy = picked_by p, isMyPick = False\<rparr>"
    by (simp add: ext step nth_append)
  have len: "length (draftPicks st) < length (draftPicks res)"
    by (simp add: ext step)
  have mem: "normalizeName (Some nm) \<in> pickedNames res"
    using names sub by blast
  have nm_eq: "nm = ''2026 '' @ show_nat (nat \<lceil>(of_nat k :: rat) / of_nat leagueSize\<rceil>) @ ''.'' @
                 padStart2 (show_nat (((k - 1) mod leagueSize) + 1))"
    unfolding nm_def by (rule rookiePickName_formula [OF assms(3)]) (simp add: k_def)
  have ex: "rookiePickName 12 13 = ''2026 2.01''"
    by code_simp
  show ?thesis
    using kc len nth mem ex
    unfolding Let_def nm_eq k_def st_def res_def by blast
qed

theorem rookie_pick_remap_witness:
  "playerName (draftPicks (fetchPicks 12 True example_picks) ! 12) = ''2026 2.01''
   \<and> ''2026 2 01'' \<in> pickedNames (fetchPicks 12 True example_picks)"
proof -
  let ?pre = "map kicker_pick [1 ..< 13]"
  have s: "sort_key pick_no example_picks = ?pre @ kicker_pick 13 # []"
    by code_simp
  have k: "pick_position (kicker_pick 13) = ''K''"
    by code_simp
  have l: "(0::nat) < 12" by simp
  have c: "Suc (length (filter (\<lambda>q. pick_position q = ''K'') ?pre)) = 13"
    by code_simp
  have n: "''2026 '' @ show_nat (nat \<lceil>(of_nat 13 :: rat) / of_nat 12\<rceil>) @ ''.'' @
                 padStart2 (show_nat (((13 - 1) mod 12) + 1)) = ''2026 2.01''"
    by code_simp
  have d: "length (draftPicks (foldl (fetch_step 12 True) fetch_init ?pre)) = 12"
    by code_simp
  have m: "normalizeName (Some ''2026 2.01'') = ''2026 2 01''"
    by code_simp
  show ?thesis
    using rookie_pick_remap [OF s k l] unfolding Let_def c n d m by simp
qed

section \<open>Ranking file: required columns and kept rows\<close>

lemma fold_header_map:
  "fold (\<lambda>(header, index) m. m(header_key header \<mapsto> index)) ps m0 k =
     (case map_of (rev (map (\<lambda>(header, index). (header_key header, index)) ps)) k of
        Some i \<Rightarrow> Some i
      | None \<Rightarrow> m0 k)"
proof (induction ps arbitrary: m0)
  case Nil
  then show ?case by simp
next
  case (Cons p ps)
  obtain h i where p: "p = (h, i)" by (cases p)
  let ?F = "\<lambda>(header, index) m. m(header_key header \<mapsto> index)"
  let ?G = "\<lambda>(header, index). (header_key header, index)"
  have "fold ?F (p # ps) m0 k = fold ?F ps (m0(header_key h \<mapsto> i)) k"
    by (simp only: fold_simps p case_prod_conv o_apply)
  also have "\<dots> = (case map_of (rev (map ?G ps)) k of
        Some j \<Rightarrow> Some j | None \<Rightarrow> (m0(header_key h \<mapsto> i)) k)"
    by (rule Cons.IH)
  also have "\<dots> = (case map_of (rev (map ?G (p # ps))) k of
        Some j \<Rightarrow> Some j | None \<Rightarrow> m0 k)"
    by (simp add: p map_add_def split: option.split)
  finally show ?case .
qed

lemma headerMap_of_eq:
  "headerMap_of headers k =
     map_of (rev (map (\<lambda>(header, index). (header_key header, index))
                   (zip headers [0 ..< length headers]))) k"
  unfolding headerMap_of_def header_key_def [symmetric]
  by (simp add: fold_header_map split: option.split)

lemma headerMap_of_Some:
  assumes "headerMap_of headers k = Some i"
  shows "i < length headers \<and> header_key (headers ! i) = k"
proof -
  from assms have "(k, i) \<in> set (map (\<lambda>(header, index). (header_key header, index))
                   (zip headers [0 ..< length headers]))"
    unfolding headerMap_of_eq by (auto dest: map_of_SomeD)
  then obtain h where "(h, i) \<in> set (zip headers [0 ..< length headers])" and "header_key h = k"
    by auto
  then show ?thesis
    by (auto simp: in_set_zip)
qed

lemma keys_of_zip:
  "length xs = length ys \<Longrightarrow>
   fst ` set (map (\<lambda>(h, i). (f h, i)) (zip xs ys)) = f ` set xs"
  by (induction xs ys rule: list_induct2) auto

lemma headerMap_of_None_iff:
  "headerMap_of headers k = None \<longleftrightarrow> \<not> has_column headers k"
proof -
  have K: "fst ` set (map (\<lambda>(header, index). (header_key header, index))
                        (zip headers [0 ..< length headers])) = header_key ` set headers"
    by (rule keys_of_zip) simp
  show ?thesis
    unfolding headerMap_of_eq has_column_def map_of_eq_None_iff set_rev K by simp
qed

lemma lower_literals:
  "toLowerCase ''name'' = ''name''" "toLowerCase ''tier'' = ''tier''"
  "toLowerCase ''pos'' = ''pos''" "toLowerCase ''position'' = ''position''"
  by code_simp+

lemma findHeaderIndex_one: "findHeaderIndex m [k] = m (toLowerCase k)"
  by (simp split: option.split)

lemma findHeaderIndex_two:
  "findHeaderIndex m [k, k'] = (case m (toLowerCase k) of Some i \<Rightarrow> Some i | None \<Rightarrow> m (toLowerCase k'))"
  by (simp split: option.split)

lemma parseCSV_nonblank:
  "parseCSV content =
     (case nonblank_lines content of
        [] \<Rightarrow> Inr []
      | headerLine # dataLines \<Rightarrow>
          (let m = headerMap_of (parseCSVLine headerLine)
           in case (m ''name'', m ''tier'',
                    case m ''pos'' of Some i \<Rightarrow> Some i | None \<Rightarrow> m ''position'') of
                (Some ni, Some ti, Some pj) \<Rightarrow>
                  Inr (concat (map (parse_row ni ti pj
                        (findHeaderIndex m [''assettype'', ''asset_type''])) dataLines))
              | _ \<Rightarrow> Inl csv_error))"
  unfolding parseCSV_def nonblank_lines_def csv_error_def Let_def
    findHeaderIndex_one findHeaderIndex_two lower_literals ..

lemma parse_row_cases:
  assumes "trim line \<noteq> []"
  shows "parse_row ni ti pj ai line =
     (if data_row_kept ni ti pj line
      then [\<lparr>name = trim (parseCSVLine (trim line) ! ni),
             tier = trim (parseCSVLine (trim line) ! ti),
             position = trim (parseCSVLine (trim line) ! pj),
             assetType = (case ai of None \<Rightarrow> None
                          | Some i \<Rightarrow> if i < length (parseCSVLine (trim line))
                                      then Some (trim (parseCSVLine (trim line) ! i)) else None),
             taken = False, manualOverride = None,
             normalizedName =
               applyAlias (normalizeName (Some (trim (parseCSVLine (trim line) ! ni))))\<rparr>]
      else [])"
  using assms by (auto simp: parse_row_def data_row_kept_def Let_def)

lemma concat_parse_rows:
  assumes "\<forall>l \<in> set ds. trim l \<noteq> []"
  shows "map name (concat (map (parse_row ni ti pj ai) ds))
           = map (\<lambda>l. trim (parseCSVLine (trim l) ! ni)) (filter (data_row_kept ni ti pj) ds)
       \<and> (\<forall>r \<in> set (concat (map (parse_row ni ti pj ai) ds)).
             taken r = False \<and> manualOverride r = None \<and> name r \<noteq> [])"
  using assms
proof (induction ds)
  case Nil
  then show ?case by simp
next
  case (Cons l ds)
  then have l: "trim l \<noteq> []" and ds: "\<forall>l \<in> set ds. trim l \<noteq> []"
    by simp_all
  show ?case
    using Cons.IH [OF ds] by (auto simp: parse_row_cases [OF l] data_row_kept_def Let_def)
qed

lemma nonblank_lines_trim: "l \<in> set (nonblank_lines content) \<Longrightarrow> trim l \<noteq> []"
  by (simp add: nonblank_lines_def)

text \<open>
  C9 (as stated, refuted). With all required columns present, a data row whose name is
  not empty after trimming is still dropped when it has too few fields to reach the tier
  or position column.
\<close>

theorem parseCSV_drops_short_row:
  "nonblank_lines example_short_row_csv = [''name,tier,pos'', ''Bijan Robinson'']
   \<and> required_columns_present (parseCSVLine ''name,tier,pos'')
   \<and> trim (parseCSVLine (trim ''Bijan Robinson'') ! 0) = ''Bijan Robinson''
   \<and> parseCSV example_short_row_csv = Inr []"
  by (intro conjI; code_simp)

text \<open>
  C9 (amended). An input without a non-blank line parses to no row. Otherwise the first
  non-blank line is the header: \<open>parseCSV\<close> raises the error naming the required columns
  exactly when the header lacks \<open>name\<close>, \<open>tier\<close> or both of \<open>pos\<close> and \<open>position\<close>
  (compared after lower-casing and trimming), and when they are all present it returns,
  in order, one row for each data line that reaches the name, tier and position columns
  and whose name is not empty after trimming; every row has \<open>taken = false\<close> and no
  \<open>manualOverride\<close>. Rows with an empty name and rows with too few fields are dropped.
\<close>

theorem parseCSV_required_columns:
  "(nonblank_lines content = [] \<longrightarrow> parseCSV content = Inr [])
   \<and> (\<forall>headerLine dataLines. nonblank_lines content = headerLine # dataLines \<longrightarrow>
        (\<not> required_columns_present (parseCSVLine headerLine) \<longrightarrow>
            parseCSV content = Inl csv_error)
        \<and> (required_columns_present (parseCSVLine headerLine) \<longrightarrow>
            (\<exists>ni ti pj rows.
               parseCSV content = Inr rows
               \<and> ni < length (parseCSVLine headerLine)
               \<and> header_key (parseCSVLine headerLine ! ni) = ''name''
               \<and> ti < length (parseCSVLine headerLine)
               \<and> header_key (parseCSVLine headerLine ! ti) = ''tier''
               \<and> pj < length (parseCSVLine headerLine)
               \<and> header_key (parseCSVLine headerLine ! pj) \<in> {''pos'', ''position''}
               \<and> map name rows
                   = map (\<lambda>l. trim (parseCSVLine (trim l) ! ni))
                       (filter (data_row_kept ni ti pj) dataLines)
               \<and> (\<forall>r \<in> set rows.
                     taken r = False \<and> manualOverride r = None \<and> name r \<noteq> []))))"
proof (intro conjI allI impI)
  assume "nonblank_lines content = []"
  then show "parseCSV content = Inr []"
    by (simp add: parseCSV_nonblank)
next
  fix headerLine dataLines
  assume nb: "nonblank_lines content = headerLine # dataLines"
    and miss: "\<not> required_columns_present (parseCSVLine headerLine)"
  then show "parseCSV content = Inl csv_error"
    unfolding parseCSV_nonblank required_columns_present_def
    by (auto simp: Let_def headerMap_of_None_iff [symmetric] split: option.split)
next
  fix headerLine dataLines
  assume nb: "nonblank_lines content = headerLine # dataLines"
    and pres: "required_columns_present (parseCSVLine headerLine)"
  let ?h = "parseCSVLine headerLine"
  let ?m = "headerMap_of ?h"
  let ?ai = "findHeaderIndex ?m [''assettype'', ''asset_type'']"
  from pres obtain ni where ni: "?m ''name'' = Some ni"
    unfolding required_columns_present_def
    using headerMap_of_None_iff [of ?h "''name''"] by (cases "?m ''name''") auto
  from pres obtain ti where ti: "?m ''tier'' = Some ti"
    unfolding required_columns_present_def
    using headerMap_of_None_iff [of ?h "''tier''"] by (cases "?m ''tier''") auto
  from pres obtain pj where
    pj: "(case ?m ''pos'' of Some i \<Rightarrow> Some i | None \<Rightarrow> ?m ''position'') = Some pj"
    unfolding required_columns_present_def
    using headerMap_of_None_iff [of ?h "''pos''"] headerMap_of_None_iff [of ?h "''position''"]
    by (cases "?m ''pos''"; cases "?m ''position''") auto
  have pjk: "pj < length ?h \<and> header_key (?h ! pj) \<in> {''pos'', ''position''}"
    using pj headerMap_of_Some [of ?h "''pos''" pj] headerMap_of_Some [of ?h "''position''" pj]
    by (cases "?m ''pos''") auto
  let ?rows = "concat (map (parse_row ni ti pj ?ai) dataLines)"
  have r: "parseCSV content = Inr ?rows"
    unfolding parseCSV_nonblank by (simp add: nb Let_def ni ti pj)
  have tr: "\<forall>l \<in> set dataLines. trim l \<noteq> []"
    using nonblank_lines_trim [of _ content] by (simp add: nb)
  show "\<exists>ni ti pj rows.
               parseCSV content = Inr rows
               \<and> ni < length (parseCSVLine headerLine)
               \<and> header_key (parseCSVLine headerLine ! ni) = ''name''
               \<and> ti < length (parseCSVLine headerLine)
               \<and> header_key (parseCSVLine headerLine ! ti) = ''tier''
               \<and> pj < length (parseCSVLine headerLine)
               \<and> header_key (parseCSVLine headerLine ! pj) \<in> {''pos'', ''position''}
               \<and> map name rows
                   = map (\<lambda>l. trim (parseCSVLine (trim l) ! ni))
                       (filter (data_row_kept ni ti pj) dataLines)
               \<and> (\<forall>r \<in> set rows.
                     taken r = False \<and> manualOverride r = None \<and> name r \<noteq> [])"
    using r headerMap_of_Some [OF ni] headerMap_of_Some [OF ti] pjk
      concat_parse_rows [OF tr, of ni ti pj ?ai]
    by blast
qed

theorem parseCSV_required_columns_witness:
  "nonblank_lines [] = [] \<and> parseCSV [] = Inr []
   \<and> nonblank_lines ''name,tier'' = [''name,tier'']
   \<and> \<not> required_columns_present (parseCSVLine ''name,tier'')
   \<and> parseCSV ''name,tier'' = Inl csv_error
   \<and> required_columns_present (parseCSVLine ''name,tier,pos,assetType'')
   \<and> (\<exists>rows. parseCSV example_csv = Inr rows
         \<and> (\<forall>r \<in> set rows. taken r = False \<and> manualOverride r = None \<and> name r \<noteq> []))"
proof -
  have a: "nonblank_lines [] = []" by code_simp
  have b: "nonblank_lines ''name,tier'' = [''name,tier'']" by code_simp
  have c: "\<not> required_columns_present (parseCSVLine ''name,tier'')" by code_simp
  have d: "nonblank_lines example_csv
            = [''name,tier,pos,assetType'', ''Bijan Robinson,1,RB,PLAYER'', ''2026 1.01,1,PICK,PICK'']"
    by code_simp
  have e: "required_columns_present (parseCSVLine ''name,tier,pos,assetType'')" by code_simp
  have 1: "parseCSV [] = Inr []"
    by (rule parseCSV_required_columns [of "[]", THEN conjunct1, THEN mp, OF a])
  have 2: "parseCSV ''name,tier'' = Inl csv_error"
    by (rule parseCSV_required_columns [of "''name,tier''", THEN conjunct2, THEN spec, THEN spec,
          THEN mp, OF b, THEN conjunct1, THEN mp, OF c])
  have 3: "\<exists>rows. parseCSV example_csv = Inr rows
         \<and> (\<forall>r \<in> set rows. taken r = False \<and> manualOverride r = None \<and> name r \<noteq> [])"
    using parseCSV_required_columns [of example_csv, THEN conjunct2, THEN spec, THEN spec,
          THEN mp, OF d, THEN conjunct2, THEN mp, OF e]
    by (elim exE conjE) (intro exI conjI)
  show ?thesis
    using a 1 b c 2 e 3 by (intro conjI)
qed

section \<open>Best-Ball future weeks: the injury adjustment\<close>

lemma getInjuryProbability_zero_iff:
  "getInjuryProbability s = 0 \<longleftrightarrow> or_empty s = ''IR'' \<or> or_empty s = ''Out''"
  by (simp add: getInjuryProbability_def)

text \<open>
  C4 (as stated, refuted). A player designated \<open>Out\<close> with a positive external projection
  has a designation, yet the injury multiplication is not performed for him: the pushed
  points are the blended projection (253/25), not its product with the play probability
  and the performance impact (0).
\<close>

theorem injury_adjustment_not_applied_to_out:
  "positive_projection example_out \<and> \<not> no_designation (injury_status example_out)
   \<and> futureWeekPoints example_out = Some (blendedProjection example_out)
   \<and> blendedProjection example_out = 253 / 25
   \<and> blendedProjection example_out * getInjuryProbability (injury_status example_out)
        * getInjuryImpact (injury_status example_out) = 0"
  by (intro conjI; code_simp)

text \<open>
  C4 (amended). A player designated \<open>IR\<close> or \<open>Out\<close> (play probability 0) without an
  external projection is left out of the week. For every other player the points pushed
  are the blended, regressed projection multiplied by the play probability and the
  performance impact of the status, floored at 0, except exactly for the players with a
  present, positive external projection who are designated \<open>IR\<close> or \<open>Out\<close>: for them the
  multiplication is skipped. A player without a designation is multiplied by 1.
\<close>

theorem injury_adjustment_skipped_for_out:
  "futureWeekPoints p =
     (if (or_empty (injury_status p) = ''IR'' \<or> or_empty (injury_status p) = ''Out'')
         \<and> sleeperProj_of p = None
      then None
      else Some (max 0
        (if positive_projection p
            \<and> (or_empty (injury_status p) = ''IR'' \<or> or_empty (injury_status p) = ''Out'')
         then blendedProjection p
         else blendedProjection p * getInjuryProbability (injury_status p)
                * getInjuryImpact (injury_status p))))"
  by (auto simp: futureWeekPoints_def skipsInjuryAdjustment_def positive_projection_def
      getInjuryProbability_zero_iff Let_def split: option.split)

section \<open>WR/TE composite: the weights of the blend\<close>

text \<open>
  C2 (the code at the failing input). A row with only the wopr component present
  (\<open>wopr = 0.5\<close>, hence wopr-PPG 10) gets the composite \<open>10 * 0.3 / (0.4 + 0.3) = 30/7\<close>,
  not \<open>10\<close>: the weight \<open>0.4\<close> of the external projection stays in the divisor when that
  component is absent.
\<close>

theorem pwopr_wopr_only_not_renormalized:
  "wopr_ppg_of example_wopr_only = 10 \<and> pwoprComposite example_wopr_only = 30 / 7"
  by (intro conjI; code_simp)

section \<open>\<open>fitLinear\<close>: when there is no fit\<close>








end
